theory Spec2Isabelle
  imports Complex_Main
begin

section \<open>Python values used by the shot detectors\<close>

text \<open>
  The two detectors of the repository, \<open>LiveShotDetector\<close> (live_analysis.py) and
  \<open>ShotDetectionDebugger\<close> (debug_shot_detection.py), are embedded as state-passing
  functions. Python floats are taken as reals; the numeric angle computation
  \<open>_calculate_angle\<close> (numpy: norms, arccos, degrees) is a parameter \<open>ang\<close> of every
  function that calls it, and \<open>calculate_angle\<close> below is its text in exact
  arithmetic. A Python exception is a value \<open>Inl e\<close>.
\<close>

datatype py_error = IndexError | TypeError

definition bindE :: "'e + 'a \<Rightarrow> ('a \<Rightarrow> 'e + 'b) \<Rightarrow> 'e + 'b" where
  "bindE m f = (case m of Inl e \<Rightarrow> Inl e | Inr x \<Rightarrow> f x)"

text \<open>\<open>xs[i]\<close> on a Python list: negative indices count from the end, anything else
  out of range raises IndexError.\<close>

definition py_index :: "'a list \<Rightarrow> int \<Rightarrow> py_error + 'a" where
  "py_index xs i =
     (let n = int (length xs) in
      if 0 \<le> i \<and> i < n then Inr (xs ! nat i)
      else if - n \<le> i \<and> i < 0 then Inr (xs ! nat (n + i))
      else Inl IndexError)"

text \<open>\<open>range(a, b)\<close>.\<close>

definition py_range :: "int \<Rightarrow> int \<Rightarrow> int list" where
  "py_range a b = [a..b - 1]"

text \<open>\<open>int(x)\<close> on a float truncates towards zero. The products \<open>d * 0.20\<close>, ...,
  \<open>d * 0.80\<close> of the source are floating point; for every \<open>d\<close> that fits a buffer their
  truncation is that of the exact product, which is what is computed here.\<close>

definition py_int :: "real \<Rightarrow> int" where
  "py_int x = (if 0 \<le> x then \<lfloor>x\<rfloor> else \<lceil>x\<rceil>)"

text \<open>Truth value of an \<open>Optional[float]\<close>: \<open>None\<close> and \<open>0.0\<close> are false.\<close>

definition truthy :: "real option \<Rightarrow> bool" where
  "truthy a = (case a of None \<Rightarrow> False | Some v \<Rightarrow> v \<noteq> 0)"

text \<open>\<open>min_angle\<close> starts as \<open>float('inf')\<close>.\<close>

datatype ext_angle = Infinity | Angle real

fun below :: "real \<Rightarrow> ext_angle \<Rightarrow> bool" where
  "below a Infinity = True"
| "below a (Angle m) = (a < m)"

type_synonym point = "real \<times> real \<times> real"
type_synonym landmarks = "string \<rightharpoonup> point"
type_synonym visibility = "string \<rightharpoonup> real"
type_synonym angle_fn = "point \<Rightarrow> point \<Rightarrow> point \<Rightarrow> real"

definition py_y :: "point \<Rightarrow> real" where
  "py_y p = fst (snd p)"

section \<open>Code shared by both detectors\<close>

text \<open>The thresholds set by both constructors.\<close>

definition STABILITY_REQUIRED :: int where "STABILITY_REQUIRED = 8"
definition RELEASE_ANGLE :: real where "RELEASE_ANGLE = 155"
definition MIN_SHOT_FRAMES :: int where "MIN_SHOT_FRAMES = 10"
definition COOLDOWN_FRAMES :: int where "COOLDOWN_FRAMES = 45"

text \<open>
  Feature extraction, the head of \<open>LiveShotDetector.update\<close> (lines 888-910) and of
  \<open>ShotDetectionDebugger.process_frame\<close> (lines 113-135), the same text in both:
  the elbow angle, the wrist height, the wrist-above-shoulder flag and the new
  stability counter.
\<close>

record features =
  f_elbow_angle :: "real option"
  f_wrist_y :: "real option"
  f_wrist_above_shoulder :: bool
  f_stability :: int

definition vis_ok :: "string \<Rightarrow> visibility \<Rightarrow> bool" where
  "vis_ok sd vis =
     list_all (\<lambda>j. (case vis (sd @ ''_'' @ j) of None \<Rightarrow> 0 | Some v \<Rightarrow> v) > 0.5)
       [''shoulder'', ''elbow'', ''wrist'']"

definition extract_features :: "angle_fn \<Rightarrow> string \<Rightarrow> int \<Rightarrow> landmarks \<Rightarrow> visibility \<Rightarrow> features" where
  "extract_features ang sd stab lm vis =
     (case (lm (sd @ ''_shoulder''), lm (sd @ ''_elbow''), lm (sd @ ''_wrist'')) of
        (Some shoulder, Some elbow, Some wrist) \<Rightarrow>
          \<lparr> f_elbow_angle = Some (ang shoulder elbow wrist),
            f_wrist_y = Some (py_y wrist),
            f_wrist_above_shoulder = (py_y wrist < py_y shoulder),
            f_stability = (if vis_ok sd vis then stab + 1 else 0) \<rparr>
      | _ \<Rightarrow>
          \<lparr> f_elbow_angle = None, f_wrist_y = None,
            f_wrist_above_shoulder = False, f_stability = 0 \<rparr>)"

text \<open>
  \<open>_calculate_angle\<close> (live lines 938-943, debug lines 174-179, the same text in both):
  the angle at \<open>p2\<close> in degrees, from the first two coordinates of the points. The
  cosine is the dot product over the product of the norms plus \<open>1e-6\<close>, clipped to
  \<open>[-1, 1]\<close>. Here it is in exact arithmetic, where the floating-point code rounds.
\<close>

definition calculate_angle :: angle_fn where
  "calculate_angle p1 p2 p3 =
     (let v1 = (fst p1 - fst p2, py_y p1 - py_y p2);
          v2 = (fst p3 - fst p2, py_y p3 - py_y p2);
          dot = fst v1 * fst v2 + snd v1 * snd v2;
          norm1 = sqrt ((fst v1)\<^sup>2 + (snd v1)\<^sup>2);
          norm2 = sqrt ((fst v2)\<^sup>2 + (snd v2)\<^sup>2);
          cos_angle = dot / (norm1 * norm2 + 1 / 10 ^ 6)
      in arccos (min (max cos_angle (- 1)) 1) * 180 / pi)"

text \<open>One iteration of the backward search for the load (live lines 963-965, debug
  lines 203-205): a frame replaces the running minimum when its angle is true as a
  Python value and strictly smaller.\<close>

definition load_step :: "int \<Rightarrow> real option \<Rightarrow> int \<times> ext_angle \<Rightarrow> int \<times> ext_angle" where
  "load_step i a acc =
     (if truthy a \<and> below (the a) (snd acc) then (i, Angle (the a)) else acc)"

text \<open>The eight key-frame indices (live lines 972-996, debug lines 216-239), from the
  load index, the release index and \<open>len(self.frames_buffer)\<close>.\<close>

record key_frames =
  stance_idx :: int
  load_idx :: int
  mid1_idx :: int
  mid2_idx :: int
  mid3_idx :: int
  mid4_idx :: int
  release_idx :: int
  followthrough_idx :: int

definition clamp :: "int \<Rightarrow> int \<Rightarrow> int" where
  "clamp n i = max 0 (min i (n - 1))"

definition sample_key_frames :: "int \<Rightarrow> int \<Rightarrow> int \<Rightarrow> key_frames" where
  "sample_key_frames n load release =
     (let shot_duration = release - load;
          mid1 = load + py_int (of_int shot_duration * 0.20);
          mid2 = load + py_int (of_int shot_duration * 0.40);
          mid3 = load + py_int (of_int shot_duration * 0.60);
          mid4 = load + py_int (of_int shot_duration * 0.80);
          stance = max 0 (load - 5);
          followthrough = min (release + 5) (n - 1)
      in \<lparr> stance_idx = clamp n stance, load_idx = clamp n load,
           mid1_idx = clamp n mid1, mid2_idx = clamp n mid2,
           mid3_idx = clamp n mid3, mid4_idx = clamp n mid4,
           release_idx = clamp n release,
           followthrough_idx = clamp n followthrough \<rparr>)"

section \<open>LiveShotDetector (live_analysis.py)\<close>

definition max_buffer :: int where "max_buffer = 180"

record 'f LiveShotDetector =
  side :: string
  frames_buffer :: "'f list"
  landmarks_buffer :: "landmarks list"
  elbow_angles :: "real option list"
  wrist_heights :: "real option list"
  stability_count :: int
  last_shot_frame :: int

text \<open>\<open>__init__\<close>.\<close>

definition init :: "string \<Rightarrow> 'f LiveShotDetector" where
  "init shooting_side =
     \<lparr> side = shooting_side, frames_buffer = [], landmarks_buffer = [],
       elbow_angles = [], wrist_heights = [], stability_count = 0,
       last_shot_frame = - 100 \<rparr>"

text \<open>The fields of \<open>ShotEvent\<close> that the detector sets; the others keep their
  defaults until the feedback service fills them in. \<open>timestamp\<close> is the reading of
  \<open>time.time()\<close>, an input of the model.\<close>

record 'f ShotEvent =
  shot_number :: int
  timestamp :: real
  frames :: "(string \<times> 'f) list"
  elbow_angle_load :: ext_angle
  elbow_angle_release :: real
  wrist_height_release :: real
  knee_bend_load :: real

definition calculate_knee_bend :: "angle_fn \<Rightarrow> string \<Rightarrow> landmarks \<Rightarrow> real" where
  "calculate_knee_bend ang sd lm =
     (case (lm (sd @ ''_hip''), lm (sd @ ''_knee''), lm (sd @ ''_ankle'')) of
        (Some hip, Some knee, Some ankle) \<Rightarrow> ang hip knee ankle
      | _ \<Rightarrow> 0)"

definition calculate_wrist_height :: "string \<Rightarrow> landmarks \<Rightarrow> real" where
  "calculate_wrist_height sd lm =
     (case (lm (sd @ ''_wrist''), lm (sd @ ''_hip''), lm (sd @ ''_shoulder'')) of
        (Some wrist, Some hip, Some shoulder) \<Rightarrow>
          (let body_height = \<bar>py_y shoulder - py_y hip\<bar> in
           if body_height < 0.01 then 0
           else (py_y hip - py_y wrist) / body_height)
      | _ \<Rightarrow> 0)"

text \<open>\<open>_trim_buffer\<close>: the while loop pops the four buffers in step and moves the
  stored index of the last shot down while it is positive.\<close>

function trim_buffer :: "'f LiveShotDetector \<Rightarrow> py_error + 'f LiveShotDetector" where
  "trim_buffer s =
     (if int (length (frames_buffer s)) > max_buffer then
        (if landmarks_buffer s = [] \<or> elbow_angles s = [] \<or> wrist_heights s = []
         then Inl IndexError
         else trim_buffer
            (s\<lparr> frames_buffer := tl (frames_buffer s),
                landmarks_buffer := tl (landmarks_buffer s),
                elbow_angles := tl (elbow_angles s),
                wrist_heights := tl (wrist_heights s),
                last_shot_frame :=
                  (if last_shot_frame s > 0 then last_shot_frame s - 1
                   else last_shot_frame s) \<rparr>))
      else Inr s)"
  by pat_completeness auto
termination
  by (relation "measure (\<lambda>s. length (frames_buffer s))") (auto simp: max_buffer_def)

text \<open>The loop of \<open>_create_shot_from_release\<close> (lines 962-965) over
  \<open>range(search_start, release_idx)\<close>; \<open>self.elbow_angles[i]\<close> may raise.\<close>

fun load_loop :: "real option list \<Rightarrow> int list \<Rightarrow> int \<times> ext_angle \<Rightarrow> py_error + (int \<times> ext_angle)" where
  "load_loop angles [] acc = Inr acc"
| "load_loop angles (i # rest) acc =
     (case py_index angles i of
        Inl e \<Rightarrow> Inl e
      | Inr a \<Rightarrow> load_loop angles rest (load_step i a acc))"

fun index_all :: "'a list \<Rightarrow> int list \<Rightarrow> py_error + 'a list" where
  "index_all xs [] = Inr []"
| "index_all xs (i # rest) =
     (case py_index xs i of
        Inl e \<Rightarrow> Inl e
      | Inr x \<Rightarrow> (case index_all xs rest of Inl e \<Rightarrow> Inl e | Inr ys \<Rightarrow> Inr (x # ys)))"

definition frame_labels :: "string list" where
  "frame_labels = [''1_Stance'', ''2_Load'', ''3_Mid1'', ''4_Mid2'', ''5_Mid3'', ''6_Mid4'',
     ''7_Release'', ''8_FollowThrough'']"

definition key_list :: "key_frames \<Rightarrow> int list" where
  "key_list k = [stance_idx k, load_idx k, mid1_idx k, mid2_idx k, mid3_idx k, mid4_idx k,
     release_idx k, followthrough_idx k]"

text \<open>
  \<open>_create_shot_from_release\<close>. The result is \<open>None\<close> for a rejected candidate;
  otherwise the \<open>ShotEvent\<close>, and with it the eight indices that the method computes
  and prints, which the \<open>ShotEvent\<close> itself does not store. The format
  \<open>{release_angle:.0f}\<close> of the debug output raises TypeError on \<open>None\<close>.
\<close>

definition create_shot_from_release ::
  "angle_fn \<Rightarrow> real \<Rightarrow> 'f LiveShotDetector \<Rightarrow> int \<Rightarrow> py_error + (key_frames \<times> 'f ShotEvent) option" where
  "create_shot_from_release ang now s release =
     (let search_start = max 0 (release - 60) in
      bindE (load_loop (elbow_angles s) (py_range search_start release) (release, Infinity))
        (\<lambda>(load, min_angle).
      let shot_duration = release - load in
      if shot_duration < MIN_SHOT_FRAMES then Inr None
      else
        let k = sample_key_frames (int (length (frames_buffer s))) load release in
        bindE (index_all (frames_buffer s) (key_list k)) (\<lambda>fs.
        bindE (if release_idx k < int (length (elbow_angles s))
               then py_index (elbow_angles s) (release_idx k) else Inr (Some 0))
          (\<lambda>release_angle.
        if release_angle = None then Inl TypeError
        else
        bindE (py_index (landmarks_buffer s) (load_idx k)) (\<lambda>load_landmarks.
        bindE (py_index (landmarks_buffer s) (release_idx k)) (\<lambda>release_landmarks.
        Inr (Some (k,
          \<lparr> shot_number = 0,
            timestamp = now,
            frames = zip frame_labels fs,
            elbow_angle_load = min_angle,
            elbow_angle_release = (if truthy release_angle then the release_angle else 170),
            wrist_height_release = calculate_wrist_height (side s) release_landmarks,
            knee_bend_load = calculate_knee_bend ang (side s) load_landmarks \<rparr>))))))))"

text \<open>
  \<open>update\<close>, in its two halves: buffering the frame (lines 888-917), then the
  detection on the newest frame (lines 919-936). \<open>now\<close> is what \<open>time.time()\<close> would
  return during the call.
\<close>

definition ingest ::
  "angle_fn \<Rightarrow> 'f LiveShotDetector \<Rightarrow> 'f \<Rightarrow> landmarks \<Rightarrow> visibility \<Rightarrow>
     py_error + ('f LiveShotDetector \<times> features)" where
  "ingest ang s frame lm vis =
     (let ft = extract_features ang (side s) (stability_count s) lm vis in
      bindE (trim_buffer
          (s\<lparr> stability_count := f_stability ft,
              frames_buffer := frames_buffer s @ [frame],
              landmarks_buffer := landmarks_buffer s @ [lm],
              elbow_angles := elbow_angles s @ [f_elbow_angle ft],
              wrist_heights := wrist_heights s @ [f_wrist_y ft] \<rparr>))
        (\<lambda>s'. Inr (s', ft)))"

definition detect ::
  "angle_fn \<Rightarrow> real \<Rightarrow> 'f LiveShotDetector \<Rightarrow> features \<Rightarrow>
     py_error + ('f LiveShotDetector \<times> (key_frames \<times> 'f ShotEvent) option)" where
  "detect ang now s ft =
     (let current_idx = int (length (frames_buffer s)) - 1 in
      if stability_count s < STABILITY_REQUIRED then Inr (s, None)
      else if current_idx - last_shot_frame s < COOLDOWN_FRAMES then Inr (s, None)
      else if truthy (f_elbow_angle ft) \<and> the (f_elbow_angle ft) > RELEASE_ANGLE
              \<and> f_wrist_above_shoulder ft
      then bindE (create_shot_from_release ang now s current_idx) (\<lambda>shot.
             case shot of
               Some ev \<Rightarrow> Inr (s\<lparr> last_shot_frame := current_idx \<rparr>, Some ev)
             | None \<Rightarrow> Inr (s, None))
      else Inr (s, None))"

definition update ::
  "angle_fn \<Rightarrow> real \<Rightarrow> 'f LiveShotDetector \<Rightarrow> 'f \<Rightarrow> landmarks \<Rightarrow> visibility \<Rightarrow>
     py_error + ('f LiveShotDetector \<times> (key_frames \<times> 'f ShotEvent) option)" where
  "update ang now s frame lm vis =
     bindE (ingest ang s frame lm vis) (\<lambda>(s', ft). detect ang now s' ft)"

text \<open>A caller's loop: one \<open>update\<close> per frame, collecting what each call returns.\<close>

record 'f frame_input =
  fi_frame :: 'f
  fi_landmarks :: landmarks
  fi_visibility :: visibility
  fi_now :: real

fun run ::
  "angle_fn \<Rightarrow> 'f LiveShotDetector \<Rightarrow> 'f frame_input list \<Rightarrow>
     py_error + ('f LiveShotDetector \<times> (key_frames \<times> 'f ShotEvent) option list)" where
  "run ang s [] = Inr (s, [])"
| "run ang s (x # xs) =
     (case update ang (fi_now x) s (fi_frame x) (fi_landmarks x) (fi_visibility x) of
        Inl e \<Rightarrow> Inl e
      | Inr (s', r) \<Rightarrow>
          (case run ang s' xs of Inl e \<Rightarrow> Inl e | Inr (s'', rs) \<Rightarrow> Inr (s'', r # rs)))"

section \<open>ShotDetectionDebugger (debug_shot_detection.py)\<close>

text \<open>Fields that the two classes share by name carry the prefix \<open>dbg_\<close> here.\<close>

definition dbg_max_buffer :: int where "dbg_max_buffer = 200"

record FrameMetrics =
  frame_num :: int
  timestamp_ms :: real
  elbow_angle :: "real option"
  wrist_height :: "real option"
  wrist_above_shoulder :: bool
  shoulder_y :: "real option"
  elbow_y :: "real option"
  wrist_y :: "real option"

text \<open>\<open>DetectedShot\<close>: its eight index fields are the record \<open>key_frames\<close>, which it
  extends with the other fields of the dataclass.\<close>

record DetectedShot = key_frames +
  shot_num :: int
  frame_start :: int
  frame_end :: int
  load_angle :: ext_angle
  release_angle :: real
  frame_metrics :: "FrameMetrics list"

record 'f ShotDetectionDebugger =
  dbg_side :: string
  dbg_frames_buffer :: "'f list"
  metrics_buffer :: "FrameMetrics list"
  dbg_stability_count :: int
  dbg_last_shot_frame :: int
  shots :: "DetectedShot list"
  shot_count :: int

definition dbg_init :: "string \<Rightarrow> 'f ShotDetectionDebugger" where
  "dbg_init shooting_side =
     \<lparr> dbg_side = shooting_side, dbg_frames_buffer = [], metrics_buffer = [],
       dbg_stability_count = 0, dbg_last_shot_frame = - 100, shots = [], shot_count = 0 \<rparr>"

text \<open>\<open>xs[a:b]\<close> on a Python list.\<close>

definition py_slice :: "'a list \<Rightarrow> int \<Rightarrow> int \<Rightarrow> 'a list" where
  "py_slice xs a b =
     (let n = int (length xs);
          norm = (\<lambda>i. if i < 0 then max 0 (n + i) else min i n)
      in drop (nat (norm a)) (take (nat (norm b)) xs))"

function dbg_trim_buffer :: "'f ShotDetectionDebugger \<Rightarrow> py_error + 'f ShotDetectionDebugger" where
  "dbg_trim_buffer s =
     (if int (length (dbg_frames_buffer s)) > dbg_max_buffer then
        (if metrics_buffer s = [] then Inl IndexError
         else dbg_trim_buffer
            (s\<lparr> dbg_frames_buffer := tl (dbg_frames_buffer s),
                metrics_buffer := tl (metrics_buffer s),
                dbg_last_shot_frame :=
                  (if dbg_last_shot_frame s > 0 then dbg_last_shot_frame s - 1
                   else dbg_last_shot_frame s) \<rparr>))
      else Inr s)"
  by pat_completeness auto
termination
  by (relation "measure (\<lambda>s. length (dbg_frames_buffer s))") (auto simp: dbg_max_buffer_def)

text \<open>The loop of \<open>_create_shot\<close> (lines 200-205), with its guard
  \<open>i < len(self.metrics_buffer)\<close>.\<close>

fun dbg_load_loop ::
  "FrameMetrics list \<Rightarrow> int list \<Rightarrow> int \<times> ext_angle \<Rightarrow> py_error + (int \<times> ext_angle)" where
  "dbg_load_loop mb [] acc = Inr acc"
| "dbg_load_loop mb (i # rest) acc =
     (if i < int (length mb) then
        (case py_index mb i of
           Inl e \<Rightarrow> Inl e
         | Inr m \<Rightarrow> dbg_load_loop mb rest (load_step i (elbow_angle m) acc))
      else dbg_load_loop mb rest acc)"

text \<open>
  \<open>_create_shot\<close>. It counts the shot before the search and takes the count back on a
  rejection. \<open>_save_shot_debug\<close>, which writes the images, the JSON file and the plot
  of an accepted shot to disk and changes nothing in the detector, is left out.
\<close>

definition create_shot ::
  "'f ShotDetectionDebugger \<Rightarrow> int \<Rightarrow> real \<Rightarrow>
     py_error + ('f ShotDetectionDebugger \<times> DetectedShot option)" where
  "create_shot s0 release rel_angle =
     (let s = s0\<lparr> shot_count := shot_count s0 + 1 \<rparr>;
          search_start = max 0 (release - 60) in
      bindE (dbg_load_loop (metrics_buffer s) (py_range search_start release)
               (release, Infinity))
        (\<lambda>(load, min_angle).
      let shot_duration = release - load in
      if shot_duration < MIN_SHOT_FRAMES
      then Inr (s\<lparr> shot_count := shot_count s - 1 \<rparr>, None)
      else
        let k = sample_key_frames (int (length (dbg_frames_buffer s))) load release;
            window_start = max 0 (stance_idx k - 10);
            window_end = min (int (length (metrics_buffer s))) (followthrough_idx k + 10);
            shot_metrics = py_slice (metrics_buffer s) window_start window_end;
            shot = \<lparr> stance_idx = stance_idx k, load_idx = load_idx k,
                     mid1_idx = mid1_idx k, mid2_idx = mid2_idx k,
                     mid3_idx = mid3_idx k, mid4_idx = mid4_idx k,
                     release_idx = release_idx k,
                     followthrough_idx = followthrough_idx k,
                     shot_num = shot_count s,
                     frame_start = window_start,
                     frame_end = window_end,
                     load_angle = min_angle,
                     release_angle = rel_angle,
                     frame_metrics = shot_metrics \<rparr>
        in Inr (s\<lparr> shots := shots s @ [shot] \<rparr>, Some shot)))"

text \<open>\<open>process_frame\<close>, in the same two halves as \<open>update\<close>.\<close>

definition dbg_ingest ::
  "angle_fn \<Rightarrow> 'f ShotDetectionDebugger \<Rightarrow> 'f \<Rightarrow> landmarks \<Rightarrow> visibility \<Rightarrow> int \<Rightarrow> real \<Rightarrow>
     py_error + ('f ShotDetectionDebugger \<times> features)" where
  "dbg_ingest ang s frame lm vis fnum ts =
     (let ft = extract_features ang (dbg_side s) (dbg_stability_count s) lm vis;
          metrics = \<lparr> frame_num = fnum, timestamp_ms = ts,
                      elbow_angle = f_elbow_angle ft,
                      wrist_height = f_wrist_y ft,
                      wrist_above_shoulder = f_wrist_above_shoulder ft,
                      shoulder_y = map_option py_y (lm (dbg_side s @ ''_shoulder'')),
                      elbow_y = map_option py_y (lm (dbg_side s @ ''_elbow'')),
                      wrist_y = map_option py_y (lm (dbg_side s @ ''_wrist'')) \<rparr> in
      bindE (dbg_trim_buffer
          (s\<lparr> dbg_stability_count := f_stability ft,
              dbg_frames_buffer := dbg_frames_buffer s @ [frame],
              metrics_buffer := metrics_buffer s @ [metrics] \<rparr>))
        (\<lambda>s'. Inr (s', ft)))"

definition dbg_detect ::
  "'f ShotDetectionDebugger \<Rightarrow> features \<Rightarrow>
     py_error + ('f ShotDetectionDebugger \<times> DetectedShot option)" where
  "dbg_detect s ft =
     (let current_idx = int (length (dbg_frames_buffer s)) - 1 in
      if dbg_stability_count s < STABILITY_REQUIRED then Inr (s, None)
      else if current_idx - dbg_last_shot_frame s < COOLDOWN_FRAMES then Inr (s, None)
      else if truthy (f_elbow_angle ft) \<and> the (f_elbow_angle ft) > RELEASE_ANGLE
              \<and> f_wrist_above_shoulder ft
      then bindE (create_shot s current_idx (the (f_elbow_angle ft))) (\<lambda>(s', shot).
             case shot of
               Some ev \<Rightarrow> Inr (s'\<lparr> dbg_last_shot_frame := current_idx \<rparr>, Some ev)
             | None \<Rightarrow> Inr (s', None))
      else Inr (s, None))"

definition process_frame ::
  "angle_fn \<Rightarrow> 'f ShotDetectionDebugger \<Rightarrow> 'f \<Rightarrow> landmarks \<Rightarrow> visibility \<Rightarrow> int \<Rightarrow> real \<Rightarrow>
     py_error + ('f ShotDetectionDebugger \<times> DetectedShot option)" where
  "process_frame ang s frame lm vis fnum ts =
     bindE (dbg_ingest ang s frame lm vis fnum ts) (\<lambda>(s', ft). dbg_detect s' ft)"

record 'f dbg_input =
  di_frame :: 'f
  di_landmarks :: landmarks
  di_visibility :: visibility
  di_frame_num :: int
  di_timestamp_ms :: real

fun dbg_run ::
  "angle_fn \<Rightarrow> 'f ShotDetectionDebugger \<Rightarrow> 'f dbg_input list \<Rightarrow>
     py_error + ('f ShotDetectionDebugger \<times> DetectedShot option list)" where
  "dbg_run ang s [] = Inr (s, [])"
| "dbg_run ang s (x # xs) =
     (case process_frame ang s (di_frame x) (di_landmarks x) (di_visibility x)
             (di_frame_num x) (di_timestamp_ms x) of
        Inl e \<Rightarrow> Inl e
      | Inr (s', r) \<Rightarrow>
          (case dbg_run ang s' xs of Inl e \<Rightarrow> Inl e | Inr (s'', rs) \<Rightarrow> Inr (s'', r # rs)))"

section \<open>Notions used in the statements\<close>

subsection \<open>The search window and its minimum\<close>

text \<open>\<open>window R\<close> is \<open>range(search_start, release_idx)\<close> for the release index \<open>R\<close>.
  \<open>earliest_min ok f w L\<close>: among the indices of \<open>w\<close> whose angle \<open>f i\<close> passes the test
  \<open>ok\<close>, \<open>L\<close> is the first one at which the smallest angle stands. \<open>scan\<close> is the search
  loop as a fold, for indices that are in range.\<close>

definition window :: "int \<Rightarrow> int list" where
  "window R = py_range (max 0 (R - 60)) R"

definition earliest_min :: "(real option \<Rightarrow> bool) \<Rightarrow> (int \<Rightarrow> real option) \<Rightarrow> int list \<Rightarrow> int \<Rightarrow> bool" where
  "earliest_min ok f w L =
     (L \<in> set w \<and> ok (f L) \<and>
      (\<forall>i\<in>set w. ok (f i) \<longrightarrow> the (f L) \<le> the (f i) \<and> (i < L \<longrightarrow> the (f L) < the (f i))))"

definition scan :: "(int \<Rightarrow> real option) \<Rightarrow> int list \<Rightarrow> int \<times> ext_angle \<Rightarrow> int \<times> ext_angle" where
  "scan f w acc = foldl (\<lambda>acc i. load_step i (f i) acc) acc w"

text \<open>A list of buffered angles none of which is exactly 0, the one defined angle that
  is false as a Python value.\<close>

definition zero_free :: "real option list \<Rightarrow> bool" where
  "zero_free angles = list_all (\<lambda>a. a \<noteq> Some 0) angles"

subsection \<open>Key-frame order and sampling formulas\<close>

text \<open>Both are stated for any record that has the eight index fields, so for the live
  detector's \<open>key_frames\<close> and for \<open>DetectedShot\<close>; \<open>n\<close> is the buffer length.\<close>

definition key_frame_chain :: "int \<Rightarrow> 'a key_frames_scheme \<Rightarrow> bool" where
  "key_frame_chain n k =
     (0 \<le> stance_idx k \<and> stance_idx k \<le> load_idx k \<and> load_idx k \<le> mid1_idx k \<and>
      mid1_idx k \<le> mid2_idx k \<and> mid2_idx k \<le> mid3_idx k \<and> mid3_idx k \<le> mid4_idx k \<and>
      mid4_idx k \<le> release_idx k \<and> release_idx k \<le> followthrough_idx k \<and>
      followthrough_idx k \<le> n - 1)"

definition key_frame_formulas :: "int \<Rightarrow> 'a key_frames_scheme \<Rightarrow> bool" where
  "key_frame_formulas n k =
     (let d = release_idx k - load_idx k in
      mid1_idx k = load_idx k + \<lfloor>real_of_int d * 0.20\<rfloor> \<and>
      mid2_idx k = load_idx k + \<lfloor>real_of_int d * 0.40\<rfloor> \<and>
      mid3_idx k = load_idx k + \<lfloor>real_of_int d * 0.60\<rfloor> \<and>
      mid4_idx k = load_idx k + \<lfloor>real_of_int d * 0.80\<rfloor> \<and>
      stance_idx k = max 0 (load_idx k - 5) \<and>
      followthrough_idx k = min (release_idx k + 5) (n - 1))"

subsection \<open>Buffers in step, and the closed form of buffering a frame\<close>

text \<open>\<open>lockstep\<close>: the parallel buffers have one length, as in every state that \<open>update\<close>
  (resp. \<open>process_frame\<close>) reaches from \<open>__init__\<close>. \<open>excess cap xs\<close> is the number of frames
  that trimming evicts, \<open>rebase\<close> what it makes of the stored last-shot index, and
  \<open>ingested\<close> the detector after the buffering half of a call.\<close>

definition lockstep :: "'f LiveShotDetector \<Rightarrow> bool" where
  "lockstep s =
     (length (landmarks_buffer s) = length (frames_buffer s) \<and>
      length (elbow_angles s) = length (frames_buffer s) \<and>
      length (wrist_heights s) = length (frames_buffer s))"

definition dbg_lockstep :: "'f ShotDetectionDebugger \<Rightarrow> bool" where
  "dbg_lockstep s = (length (metrics_buffer s) = length (dbg_frames_buffer s))"

definition excess :: "int \<Rightarrow> 'a list \<Rightarrow> nat" where
  "excess cap xs = nat (int (length xs) - cap)"

definition rebase :: "int \<Rightarrow> nat \<Rightarrow> int" where
  "rebase idx k = (if 0 \<le> idx then max 0 (idx - int k) else idx)"

definition ingested :: "angle_fn \<Rightarrow> 'f LiveShotDetector \<Rightarrow> 'f \<Rightarrow> landmarks \<Rightarrow> visibility \<Rightarrow> 'f LiveShotDetector" where
  "ingested ang s frame lm vis =
     (let ft = extract_features ang (side s) (stability_count s) lm vis;
          k = excess max_buffer (frames_buffer s @ [frame])
      in s\<lparr> stability_count := f_stability ft,
            frames_buffer := drop k (frames_buffer s @ [frame]),
            landmarks_buffer := drop k (landmarks_buffer s @ [lm]),
            elbow_angles := drop k (elbow_angles s @ [f_elbow_angle ft]),
            wrist_heights := drop k (wrist_heights s @ [f_wrist_y ft]),
            last_shot_frame := rebase (last_shot_frame s) k \<rparr>)"

definition dbg_ingested ::
  "angle_fn \<Rightarrow> 'f ShotDetectionDebugger \<Rightarrow> 'f \<Rightarrow> landmarks \<Rightarrow> visibility \<Rightarrow> int \<Rightarrow> real \<Rightarrow>
     'f ShotDetectionDebugger" where
  "dbg_ingested ang s frame lm vis fnum ts =
     (let ft = extract_features ang (dbg_side s) (dbg_stability_count s) lm vis;
          metrics = \<lparr> frame_num = fnum, timestamp_ms = ts,
                      elbow_angle = f_elbow_angle ft,
                      wrist_height = f_wrist_y ft,
                      wrist_above_shoulder = f_wrist_above_shoulder ft,
                      shoulder_y = map_option py_y (lm (dbg_side s @ ''_shoulder'')),
                      elbow_y = map_option py_y (lm (dbg_side s @ ''_elbow'')),
                      wrist_y = map_option py_y (lm (dbg_side s @ ''_wrist'')) \<rparr>;
          k = excess dbg_max_buffer (dbg_frames_buffer s @ [frame])
      in s\<lparr> dbg_stability_count := f_stability ft,
            dbg_frames_buffer := drop k (dbg_frames_buffer s @ [frame]),
            metrics_buffer := drop k (metrics_buffer s @ [metrics]),
            dbg_last_shot_frame := rebase (dbg_last_shot_frame s) k \<rparr>)"

subsection \<open>True distance from the last emitted event\<close>

text \<open>\<open>since_last rs\<close>, for the results \<open>rs\<close> of the calls so far: the number of frames
  fed after the last call that returned an event, \<open>None\<close> if no call did.
  \<open>distance_ok\<close> relates it to the stored index: either the buffer distance is the true
  distance, or the index has been clamped at 0 on a full buffer and the true distance is
  at least \<open>cap - 1\<close>.\<close>

definition since_last :: "'a option list \<Rightarrow> nat option" where
  "since_last rs =
     (if list_all (\<lambda>r. r = None) rs then None
      else Some (length (takeWhile (\<lambda>r. r = None) (rev rs))))"

definition distance_ok :: "int \<Rightarrow> int \<Rightarrow> int \<Rightarrow> nat option \<Rightarrow> bool" where
  "distance_ok cap len idx gap =
     (case gap of
        None \<Rightarrow> idx = - 100
      | Some d \<Rightarrow> 0 \<le> idx \<and>
          (len - 1 - idx = int d \<or> (idx = 0 \<and> len = cap \<and> cap - 1 \<le> int d)))"

definition cooldown_inv :: "'f LiveShotDetector \<Rightarrow> 'a option list \<Rightarrow> bool" where
  "cooldown_inv s rs =
     (lockstep s \<and> int (length (frames_buffer s)) \<le> max_buffer \<and>
      distance_ok max_buffer (int (length (frames_buffer s))) (last_shot_frame s) (since_last rs))"

definition dbg_cooldown_inv :: "'f ShotDetectionDebugger \<Rightarrow> 'a option list \<Rightarrow> bool" where
  "dbg_cooldown_inv s rs =
     (dbg_lockstep s \<and> int (length (dbg_frames_buffer s)) \<le> dbg_max_buffer \<and>
      distance_ok dbg_max_buffer (int (length (dbg_frames_buffer s))) (dbg_last_shot_frame s)
        (since_last rs))"

subsection \<open>What two runs have in common\<close>

text \<open>\<open>event_view\<close> keeps the key-frame indices and the two angles of an event,
  \<open>shot_view\<close> the load index, release index and load angle. \<open>same_detection\<close>: two
  detectors agree on everything but the stored images.\<close>

definition event_view :: "(key_frames \<times> 'f ShotEvent) option \<Rightarrow> (key_frames \<times> ext_angle \<times> real) option" where
  "event_view r = map_option (\<lambda>(k, e). (k, elbow_angle_load e, elbow_angle_release e)) r"

definition shot_view :: "(key_frames \<times> 'f ShotEvent) option \<Rightarrow> (int \<times> int \<times> ext_angle) option" where
  "shot_view r = map_option (\<lambda>(k, e). (load_idx k, release_idx k, elbow_angle_load e)) r"

definition same_detection :: "'f LiveShotDetector \<Rightarrow> 'g LiveShotDetector \<Rightarrow> bool" where
  "same_detection s t =
     (side s = side t \<and> length (frames_buffer s) = length (frames_buffer t) \<and>
      landmarks_buffer s = landmarks_buffer t \<and> elbow_angles s = elbow_angles t \<and>
      wrist_heights s = wrist_heights t \<and> stability_count s = stability_count t \<and>
      last_shot_frame s = last_shot_frame t)"

section \<open>Concrete inputs\<close>

text \<open>
  For the worked examples the angle function is \<open>read_angle\<close>, which reads the angle of
  a pose off the x-coordinate of its elbow; \<open>pose a\<close> is a frame of the right arm with
  elbow angle \<open>a\<close> and the wrist above the shoulder (smaller y), \<open>full_vis\<close> gives the
  three joints confidence 1.
\<close>

definition read_angle :: angle_fn where
  "read_angle p1 p2 p3 = fst p2"

definition pose :: "real \<Rightarrow> landmarks" where
  "pose a = [''right_shoulder'' \<mapsto> (0.5, 0.5, 0), ''right_elbow'' \<mapsto> (a, 0.4, 0),
             ''right_wrist'' \<mapsto> (0.5, 0.2, 0)]"

definition full_vis :: visibility where
  "full_vis = [''right_shoulder'' \<mapsto> 1, ''right_elbow'' \<mapsto> 1, ''right_wrist'' \<mapsto> 1]"

text \<open>Input sequences: \<open>steady a n\<close> is \<open>n\<close> frames of angle 170 numbered from \<open>a\<close>,
  \<open>steady_b\<close> the same poses with other images and clock readings, \<open>blank\<close> frames
  without any landmark. \<open>late_shot\<close> holds a release at frame 185, after the buffer
  has filled. \<open>spec_scenario\<close> is the scenario of the specification: 60 frames at 170,
  20 frames descending to 80, 15 frames rising back to 170.\<close>

definition steady :: "nat \<Rightarrow> nat \<Rightarrow> nat frame_input list" where
  "steady a n = map (\<lambda>i. \<lparr> fi_frame = i, fi_landmarks = pose 170, fi_visibility = full_vis,
      fi_now = 0 \<rparr>) [a..<a + n]"

definition steady_b :: "nat \<Rightarrow> nat \<Rightarrow> nat frame_input list" where
  "steady_b a n = map (\<lambda>i. \<lparr> fi_frame = i + 1000, fi_landmarks = pose 170,
      fi_visibility = full_vis, fi_now = 5 \<rparr>) [a..<a + n]"

definition dbg_steady :: "nat \<Rightarrow> nat \<Rightarrow> nat dbg_input list" where
  "dbg_steady a n = map (\<lambda>i. \<lparr> di_frame = i, di_landmarks = pose 170, di_visibility = full_vis,
      di_frame_num = int i + 1, di_timestamp_ms = 0 \<rparr>) [a..<a + n]"

definition blank :: "nat \<Rightarrow> nat \<Rightarrow> nat frame_input list" where
  "blank a n = map (\<lambda>i. \<lparr> fi_frame = i, fi_landmarks = Map.empty, fi_visibility = Map.empty,
      fi_now = 0 \<rparr>) [a..<a + n]"

definition late_shot :: "nat frame_input list" where
  "late_shot = blank 0 175 @ steady 175 11 @ blank 186 5"

definition descent :: "nat frame_input list" where
  "descent = map (\<lambda>j. \<lparr> fi_frame = 60 + j, fi_landmarks = pose (170 - 4.5 * real (j + 1)),
      fi_visibility = full_vis, fi_now = 0 \<rparr>) [0..<20]"

definition rise :: "nat frame_input list" where
  "rise = map (\<lambda>j. \<lparr> fi_frame = 80 + j, fi_landmarks = pose (80 + 6 * real (j + 1)),
      fi_visibility = full_vis, fi_now = 0 \<rparr>) [0..<15]"

definition spec_scenario :: "nat frame_input list" where
  "spec_scenario = steady 0 60 @ descent @ rise"

text \<open>Detector states: \<open>steady_state n\<close> after \<open>n\<close> frames of angle 170; \<open>dip_state\<close> after
  24 frames whose angle dips to 80 at index 12 and has not yet passed 155 again, and
  \<open>dip_state_b\<close> with another angle at index 10; \<open>zero_state\<close> with an angle of exactly 0
  at index 0, which no call of \<open>calculate_angle\<close> returns; \<open>over_state\<close> with more frames than the capacity, as \<open>_trim_buffer\<close> may
  be handed.\<close>

definition steady_state :: "nat \<Rightarrow> nat LiveShotDetector" where
  "steady_state n =
     \<lparr> side = ''right'', frames_buffer = [0..<n], landmarks_buffer = replicate n (pose 170),
       elbow_angles = replicate n (Some 170), wrist_heights = replicate n (Some 0.2),
       stability_count = int n, last_shot_frame = - 100 \<rparr>"

definition dbg_steady_state :: "nat \<Rightarrow> nat ShotDetectionDebugger" where
  "dbg_steady_state n =
     \<lparr> dbg_side = ''right'', dbg_frames_buffer = [0..<n],
       metrics_buffer = map (\<lambda>i.
           \<lparr> frame_num = int i + 1, timestamp_ms = 0, elbow_angle = Some 170,
             wrist_height = Some 0.2, wrist_above_shoulder = True,
             shoulder_y = Some 0.5, elbow_y = Some 0.4, wrist_y = Some 0.2 \<rparr>) [0..<n],
       dbg_stability_count = int n, dbg_last_shot_frame = - 100, shots = [], shot_count = 0 \<rparr>"

definition dip_angles :: "real list" where
  "dip_angles = replicate 8 170 @ [150, 130, 110, 90, 80] @
     [88, 96, 104, 112, 120, 128, 136, 144, 150, 152, 154]"

definition dip_state :: "nat LiveShotDetector" where
  "dip_state =
     \<lparr> side = ''right'', frames_buffer = [0..<24], landmarks_buffer = map pose dip_angles,
       elbow_angles = map Some dip_angles, wrist_heights = replicate 24 (Some 0.2),
       stability_count = 24, last_shot_frame = - 100 \<rparr>"

definition dbg_dip_state :: "nat ShotDetectionDebugger" where
  "dbg_dip_state =
     \<lparr> dbg_side = ''right'', dbg_frames_buffer = [0..<24],
       metrics_buffer = map (\<lambda>(i, a).
           \<lparr> frame_num = int i + 1, timestamp_ms = 0, elbow_angle = Some a,
             wrist_height = Some 0.2, wrist_above_shoulder = True,
             shoulder_y = Some 0.5, elbow_y = Some 0.4, wrist_y = Some 0.2 \<rparr>)
         (zip [0..<24] dip_angles),
       dbg_stability_count = 24, dbg_last_shot_frame = - 100, shots = [], shot_count = 0 \<rparr>"

definition dip_angles_b :: "real list" where
  "dip_angles_b = dip_angles[10 := 111]"

definition dip_state_b :: "nat LiveShotDetector" where
  "dip_state_b =
     dip_state\<lparr> landmarks_buffer := map pose dip_angles_b, elbow_angles := map Some dip_angles_b \<rparr>"

definition zero_angles :: "real option list" where
  "zero_angles = [Some 0, Some 90] @ replicate 10 (Some 120)"

definition zero_state :: "nat LiveShotDetector" where
  "zero_state =
     \<lparr> side = ''right'', frames_buffer = [0..<13],
       landmarks_buffer = map (\<lambda>a. pose (the a)) (zero_angles @ [Some 170]),
       elbow_angles = zero_angles @ [Some 170],
       wrist_heights = replicate 13 (Some 0.2),
       stability_count = 13, last_shot_frame = - 100 \<rparr>"

definition over_state :: "nat LiveShotDetector" where
  "over_state =
     \<lparr> side = ''right'', frames_buffer = [0..<183],
       landmarks_buffer = replicate 183 Map.empty,
       elbow_angles = replicate 183 None, wrist_heights = replicate 183 None,
       stability_count = 0, last_shot_frame = 2 \<rparr>"

definition dbg_over_state :: "nat ShotDetectionDebugger" where
  "dbg_over_state =
     \<lparr> dbg_side = ''right'', dbg_frames_buffer = [0..<202],
       metrics_buffer = replicate 202
           \<lparr> frame_num = 0, timestamp_ms = 0, elbow_angle = None,
             wrist_height = None, wrist_above_shoulder = False,
             shoulder_y = None, elbow_y = None, wrist_y = None \<rparr>,
       dbg_stability_count = 0, dbg_last_shot_frame = 150, shots = [], shot_count = 0 \<rparr>"

definition dip_frames :: "nat frame_input list" where
  "dip_frames = map (\<lambda>(i, a). \<lparr> fi_frame = i, fi_landmarks = pose a, fi_visibility = full_vis,
      fi_now = 0 \<rparr>) (zip [0..<24] dip_angles)"

section \<open>Key-frame sampler, backward search and trimming\<close>

lemma py_int_nonneg: "0 \<le> x \<Longrightarrow> py_int x = \<lfloor>x\<rfloor>"
  by (simp add: py_int_def)

lemma mids_ordered:
  fixes d :: int
  assumes "0 \<le> d"
  shows "0 \<le> py_int (of_int d * 0.20)"
    and "py_int (of_int d * 0.20) \<le> py_int (of_int d * 0.40)"
    and "py_int (of_int d * 0.40) \<le> py_int (of_int d * 0.60)"
    and "py_int (of_int d * 0.60) \<le> py_int (of_int d * 0.80)"
    and "py_int (of_int d * 0.80) \<le> d"
proof -
  have r: "(0::real) \<le> of_int d" using assms by simp
  show "0 \<le> py_int (of_int d * 0.20)" using r by (simp add: py_int_def)
  have "\<lfloor>of_int d * (0.20::real)\<rfloor> \<le> \<lfloor>of_int d * (0.40::real)\<rfloor>"
    using r by (intro floor_mono) simp
  then show "py_int (of_int d * 0.20) \<le> py_int (of_int d * 0.40)"
    using r by (simp add: py_int_def)
  have "\<lfloor>of_int d * (0.40::real)\<rfloor> \<le> \<lfloor>of_int d * (0.60::real)\<rfloor>"
    using r by (intro floor_mono) simp
  then show "py_int (of_int d * 0.40) \<le> py_int (of_int d * 0.60)"
    using r by (simp add: py_int_def)
  have "\<lfloor>of_int d * (0.60::real)\<rfloor> \<le> \<lfloor>of_int d * (0.80::real)\<rfloor>"
    using r by (intro floor_mono) simp
  then show "py_int (of_int d * 0.60) \<le> py_int (of_int d * 0.80)"
    using r by (simp add: py_int_def)
  have "\<lfloor>of_int d * (0.80::real)\<rfloor> \<le> \<lfloor>(of_int d :: real)\<rfloor>"
    using r by (intro floor_mono) simp
  then show "py_int (of_int d * 0.80) \<le> d"
    using r by (simp add: py_int_def)
qed

lemma clamp_id: "0 \<le> i \<Longrightarrow> i \<le> n - 1 \<Longrightarrow> clamp n i = i"
  by (simp add: clamp_def)

lemma sample_key_frames_fields:
  assumes "0 \<le> load" "load \<le> release" "release \<le> n - 1"
  shows "stance_idx (sample_key_frames n load release) = max 0 (load - 5)"
    and "load_idx (sample_key_frames n load release) = load"
    and "mid1_idx (sample_key_frames n load release) = load + py_int (of_int (release - load) * 0.20)"
    and "mid2_idx (sample_key_frames n load release) = load + py_int (of_int (release - load) * 0.40)"
    and "mid3_idx (sample_key_frames n load release) = load + py_int (of_int (release - load) * 0.60)"
    and "mid4_idx (sample_key_frames n load release) = load + py_int (of_int (release - load) * 0.80)"
    and "release_idx (sample_key_frames n load release) = release"
    and "followthrough_idx (sample_key_frames n load release) = min (release + 5) (n - 1)"
proof -
  have d: "0 \<le> release - load" using assms by simp
  note m = mids_ordered[OF d]
  show "stance_idx (sample_key_frames n load release) = max 0 (load - 5)"
    using assms by (simp add: sample_key_frames_def Let_def clamp_def)
  show "load_idx (sample_key_frames n load release) = load"
    using assms by (simp add: sample_key_frames_def Let_def clamp_def)
  show "mid1_idx (sample_key_frames n load release) = load + py_int (of_int (release - load) * 0.20)"
    using assms m by (simp add: sample_key_frames_def Let_def clamp_def)
  show "mid2_idx (sample_key_frames n load release) = load + py_int (of_int (release - load) * 0.40)"
    using assms m by (simp add: sample_key_frames_def Let_def clamp_def)
  show "mid3_idx (sample_key_frames n load release) = load + py_int (of_int (release - load) * 0.60)"
    using assms m by (simp add: sample_key_frames_def Let_def clamp_def)
  show "mid4_idx (sample_key_frames n load release) = load + py_int (of_int (release - load) * 0.80)"
    using assms m by (simp add: sample_key_frames_def Let_def clamp_def)
  show "release_idx (sample_key_frames n load release) = release"
    using assms by (simp add: sample_key_frames_def Let_def clamp_def)
  show "followthrough_idx (sample_key_frames n load release) = min (release + 5) (n - 1)"
    using assms by (simp add: sample_key_frames_def Let_def clamp_def)
qed

lemma scan_snoc: "scan f (w @ [j]) acc = load_step j (f j) (scan f w acc)"
  by (simp add: scan_def)

lemma scan_none:
  "\<forall>i\<in>set w. \<not> truthy (f i) \<Longrightarrow> scan f w acc = acc"
  by (induction w rule: rev_induct) (simp_all add: scan_def load_step_def)

lemma scan_some:
  assumes "sorted_wrt (<) w" and "\<exists>i\<in>set w. truthy (f i)"
  shows "earliest_min truthy f w (fst (scan f w (R, Infinity)))
         \<and> snd (scan f w (R, Infinity)) = Angle (the (f (fst (scan f w (R, Infinity)))))"
  using assms
proof (induction w rule: rev_induct)
  case Nil
  then show ?case by simp
next
  case (snoc j w)
  have sw: "sorted_wrt (<) w" and lt: "\<forall>i\<in>set w. i < j"
    using snoc.prems(1) by (auto simp: sorted_wrt_append)
  show ?case
  proof (cases "\<exists>i\<in>set w. truthy (f i)")
    case False
    then have acc: "scan f w (R, Infinity) = (R, Infinity)"
      by (simp add: scan_none)
    from False snoc.prems(2) have tj: "truthy (f j)" by auto
    have res: "scan f (w @ [j]) (R, Infinity) = (j, Angle (the (f j)))"
      using tj by (simp add: scan_snoc acc load_step_def)
    show ?thesis
      unfolding res using tj False lt by (auto simp: earliest_min_def)
  next
    case True
    from snoc.IH[OF sw True]
    obtain L m where acc: "scan f w (R, Infinity) = (L, m)"
      and em: "earliest_min truthy f w L" and m: "m = Angle (the (f L))"
      by (cases "scan f w (R, Infinity)") auto
    have Lw: "L \<in> set w" using em by (simp add: earliest_min_def)
    then have Lj: "L < j" using lt by blast
    show ?thesis
    proof (cases "truthy (f j) \<and> the (f j) < the (f L)")
      case True
      then have res: "scan f (w @ [j]) (R, Infinity) = (j, Angle (the (f j)))"
        by (simp add: scan_snoc acc m load_step_def)
      show ?thesis
        unfolding res using True em lt by (fastforce simp: earliest_min_def)
    next
      case False
      then have res: "scan f (w @ [j]) (R, Infinity) = (L, m)"
        by (auto simp add: scan_snoc acc m load_step_def)
      show ?thesis
        unfolding res using False em Lj m by (fastforce simp: earliest_min_def)
    qed
  qed
qed

lemma load_loop_scan:
  "\<forall>i\<in>set w. 0 \<le> i \<and> i < int (length angles) \<Longrightarrow>
   load_loop angles w acc = Inr (scan (\<lambda>i. angles ! nat i) w acc)"
proof (induction w arbitrary: acc)
  case Nil
  then show ?case by (simp add: scan_def)
next
  case (Cons i w)
  then show ?case by (simp add: scan_def py_index_def)
qed

lemma dbg_load_loop_scan:
  "\<forall>i\<in>set w. 0 \<le> i \<and> i < int (length mb) \<Longrightarrow>
   dbg_load_loop mb w acc = Inr (scan (\<lambda>i. elbow_angle (mb ! nat i)) w acc)"
proof (induction w arbitrary: acc)
  case Nil
  then show ?case by (simp add: scan_def)
next
  case (Cons i w)
  then show ?case by (simp add: scan_def py_index_def)
qed

lemma window_sorted: "sorted_wrt (<) (window R)"
  by (simp add: window_def py_range_def sorted_wrt_upto)

lemma set_window: "set (window R) = {i. max 0 (R - 60) \<le> i \<and> i < R}"
  by (auto simp: window_def py_range_def)

lemma window_in_range: "R \<le> n \<Longrightarrow> \<forall>i\<in>set (window R). 0 \<le> i \<and> i < n"
  by (auto simp: set_window)

lemma rebase_step:
  "0 < k \<Longrightarrow> rebase (if 0 < idx then idx - 1 else idx) (k - 1) = rebase idx k"
  by (auto simp: rebase_def)

lemma rebase_0: "rebase idx 0 = idx"
  by (simp add: rebase_def)

declare trim_buffer.simps [simp del]

lemma trim_buffer_eq:
  "lockstep s \<Longrightarrow>
   trim_buffer s = Inr (s\<lparr> frames_buffer := drop (excess max_buffer (frames_buffer s)) (frames_buffer s),
       landmarks_buffer := drop (excess max_buffer (frames_buffer s)) (landmarks_buffer s),
       elbow_angles := drop (excess max_buffer (frames_buffer s)) (elbow_angles s),
       wrist_heights := drop (excess max_buffer (frames_buffer s)) (wrist_heights s),
       last_shot_frame := rebase (last_shot_frame s) (excess max_buffer (frames_buffer s)) \<rparr>)"
proof (induction s rule: trim_buffer.induct)
  case (1 s)
  show ?case
  proof (cases "int (length (frames_buffer s)) > max_buffer")
    case False
    then have k: "excess max_buffer (frames_buffer s) = 0"
      by (simp add: excess_def)
    show ?thesis
      using False by (subst trim_buffer.simps) (simp add: k rebase_0)
  next
    case True
    let ?k = "excess max_buffer (frames_buffer s)"
    let ?s = "s\<lparr> frames_buffer := tl (frames_buffer s),
                landmarks_buffer := tl (landmarks_buffer s),
                elbow_angles := tl (elbow_angles s),
                wrist_heights := tl (wrist_heights s),
                last_shot_frame :=
                  (if last_shot_frame s > 0 then last_shot_frame s - 1
                   else last_shot_frame s) \<rparr>"
    have ne: "frames_buffer s \<noteq> []" using True by (auto simp: max_buffer_def)
    then have ne': "\<not> (landmarks_buffer s = [] \<or> elbow_angles s = [] \<or> wrist_heights s = [])"
      using "1.prems" by (auto simp: lockstep_def)
    have ls: "lockstep ?s" using "1.prems" by (simp add: lockstep_def)
    have kpos: "0 < ?k" using True by (simp add: excess_def)
    have k': "excess max_buffer (frames_buffer ?s) = ?k - 1"
    proof -
      obtain n where n: "length (frames_buffer s) = Suc n"
        using ne by (cases "frames_buffer s") auto
      have "nat (int n - max_buffer) = nat (int (Suc n) - max_buffer) - 1"
        by arith
      then show ?thesis by (simp add: excess_def n)
    qed
    have dr: "\<And>xs :: 'b list. drop (?k - 1) (tl xs) = drop ?k xs"
      using kpos by (cases ?k) (simp_all add: drop_Suc)
    have rb: "rebase (if 0 < last_shot_frame s then last_shot_frame s - 1 else last_shot_frame s)
        (?k - 1) = rebase (last_shot_frame s) ?k"
      using rebase_step[OF kpos, of "last_shot_frame s"] by simp
    have step: "trim_buffer s = trim_buffer ?s"
      using True ne' by (subst trim_buffer.simps) simp
    have ih: "trim_buffer ?s = Inr (s\<lparr> frames_buffer := drop (?k - 1) (tl (frames_buffer s)),
       landmarks_buffer := drop (?k - 1) (tl (landmarks_buffer s)),
       elbow_angles := drop (?k - 1) (tl (elbow_angles s)),
       wrist_heights := drop (?k - 1) (tl (wrist_heights s)),
       last_shot_frame := rebase (if 0 < last_shot_frame s then last_shot_frame s - 1
          else last_shot_frame s) (?k - 1) \<rparr>)"
      using "1.IH"[OF True ne' ls] unfolding k' by simp
    show ?thesis
      unfolding step ih dr rb ..
  qed
qed

section \<open>Inversion: what a returned event tells\<close>

lemma bindE_Inr_iff: "bindE m f = Inr y \<longleftrightarrow> (\<exists>x. m = Inr x \<and> f x = Inr y)"
  by (cases m) (simp_all add: bindE_def)

lemma bindE_Inr: "bindE (Inr x) f = f x"
  by (simp add: bindE_def)

lemma fst_load_step: "fst (load_step i a acc) = i \<or> fst (load_step i a acc) = fst acc"
  by (simp add: load_step_def)

lemma load_loop_range:
  "load_loop angles w acc = Inr (L, m) \<Longrightarrow> L = fst acc \<or> L \<in> set w"
proof (induction w arbitrary: acc)
  case Nil
  then show ?case by auto
next
  case (Cons i w)
  from Cons.prems obtain a where "load_loop angles w (load_step i a acc) = Inr (L, m)"
    by (cases "py_index angles i") auto
  from Cons.IH[OF this] fst_load_step[of i a acc] show ?case by auto
qed

lemma dbg_load_loop_range:
  "dbg_load_loop mb w acc = Inr (L, m) \<Longrightarrow> L = fst acc \<or> L \<in> set w"
proof (induction w arbitrary: acc)
  case Nil
  then show ?case by auto
next
  case (Cons i w)
  from Cons.prems obtain acc' where "dbg_load_loop mb w acc' = Inr (L, m)"
    and "fst acc' = i \<or> fst acc' = fst acc"
    using fst_load_step[of i _ acc]
    by (cases "py_index mb i"; cases "i < int (length mb)") auto
  from Cons.IH[OF this(1)] this(2) show ?case by auto
qed

lemma create_shot_from_release_Some:
  assumes "create_shot_from_release ang now s R = Inr (Some (k, ev))"
  shows "\<exists>L m. load_loop (elbow_angles s) (window R) (R, Infinity) = Inr (L, m)
           \<and> MIN_SHOT_FRAMES \<le> R - L
           \<and> k = sample_key_frames (int (length (frames_buffer s))) L R
           \<and> elbow_angle_load ev = m"
  using assms
  by (auto simp: create_shot_from_release_def bindE_Inr_iff Let_def window_def
      split: if_splits prod.splits)

lemma create_shot_from_release_None:
  assumes "load_loop (elbow_angles s) (window R) (R, Infinity) = Inr (L, m)"
    and "R - L < MIN_SHOT_FRAMES"
  shows "create_shot_from_release ang now s R = Inr None"
  using assms
  by (simp add: create_shot_from_release_def bindE_Inr Let_def window_def)

lemma detect_cases:
  assumes "detect ang now s ft = Inr (s', r)"
  shows "(r = None \<and> s' = s) \<or>
         (\<exists>ev. r = Some ev \<and> s' = s\<lparr> last_shot_frame := int (length (frames_buffer s)) - 1 \<rparr>
            \<and> create_shot_from_release ang now s (int (length (frames_buffer s)) - 1) = Inr (Some ev)
            \<and> STABILITY_REQUIRED \<le> stability_count s
            \<and> COOLDOWN_FRAMES \<le> int (length (frames_buffer s)) - 1 - last_shot_frame s
            \<and> (\<exists>a. f_elbow_angle ft = Some a \<and> RELEASE_ANGLE < a)
            \<and> f_wrist_above_shoulder ft)"
  using assms
  by (auto simp: detect_def Let_def bindE_Inr_iff truthy_def split: if_splits option.splits)

lemma update_cases:
  assumes "update ang now s frame lm vis = Inr (s', r)"
  shows "\<exists>s1 ft. ingest ang s frame lm vis = Inr (s1, ft) \<and> detect ang now s1 ft = Inr (s', r)"
  using assms by (auto simp: update_def bindE_Inr_iff)

lemma sample_key_frames_chain:
  assumes "0 \<le> load" "load \<le> release" "release \<le> n - 1"
  shows "key_frame_chain n (sample_key_frames n load release)"
    and "key_frame_formulas n (sample_key_frames n load release)"
proof -
  have d: "0 \<le> release - load" using assms by simp
  note m = mids_ordered[OF d]
  note f = sample_key_frames_fields[OF assms]
  show "key_frame_chain n (sample_key_frames n load release)"
    unfolding key_frame_chain_def f using assms m by simp
  have r: "(0::real) \<le> real_of_int (release - load)" using d by simp
  show "key_frame_formulas n (sample_key_frames n load release)"
    unfolding key_frame_formulas_def Let_def f using r by (simp add: py_int_def)
qed

lemma update_Some:
  assumes "update ang now s frame lm vis = Inr (s', Some (k, ev))"
  shows "\<exists>s1 ft L m. ingest ang s frame lm vis = Inr (s1, ft)
      \<and> s' = s1\<lparr> last_shot_frame := int (length (frames_buffer s1)) - 1 \<rparr>
      \<and> load_loop (elbow_angles s1) (window (int (length (frames_buffer s1)) - 1))
           (int (length (frames_buffer s1)) - 1, Infinity) = Inr (L, m)
      \<and> 0 \<le> L \<and> L + MIN_SHOT_FRAMES \<le> int (length (frames_buffer s1)) - 1
      \<and> L \<in> set (window (int (length (frames_buffer s1)) - 1))
      \<and> k = sample_key_frames (int (length (frames_buffer s1))) L (int (length (frames_buffer s1)) - 1)
      \<and> elbow_angle_load ev = m
      \<and> STABILITY_REQUIRED \<le> stability_count s1
      \<and> COOLDOWN_FRAMES \<le> int (length (frames_buffer s1)) - 1 - last_shot_frame s1
      \<and> (\<exists>a. f_elbow_angle ft = Some a \<and> RELEASE_ANGLE < a)
      \<and> f_wrist_above_shoulder ft"
proof -
  from update_cases[OF assms] obtain s1 ft where
    i: "ingest ang s frame lm vis = Inr (s1, ft)" and d: "detect ang now s1 ft = Inr (s', Some (k, ev))"
    by blast
  let ?R = "int (length (frames_buffer s1)) - 1"
  from detect_cases[OF d] have
    s': "s' = s1\<lparr> last_shot_frame := ?R \<rparr>"
    and c: "create_shot_from_release ang now s1 ?R = Inr (Some (k, ev))"
    and g: "STABILITY_REQUIRED \<le> stability_count s1"
      "COOLDOWN_FRAMES \<le> ?R - last_shot_frame s1"
      "\<exists>a. f_elbow_angle ft = Some a \<and> RELEASE_ANGLE < a"
      "f_wrist_above_shoulder ft"
    by auto
  from create_shot_from_release_Some[OF c] obtain L m where
    l: "load_loop (elbow_angles s1) (window ?R) (?R, Infinity) = Inr (L, m)"
    and dur: "MIN_SHOT_FRAMES \<le> ?R - L"
    and k: "k = sample_key_frames (int (length (frames_buffer s1))) L ?R"
    and m: "elbow_angle_load ev = m"
    by blast
  from load_loop_range[OF l] dur have Lw: "L \<in> set (window ?R)"
    by (auto simp: MIN_SHOT_FRAMES_def)
  then have L0: "0 \<le> L" by (simp add: set_window)
  show ?thesis
    using i s' l L0 dur Lw k m g by (intro exI[of _ s1] exI[of _ ft] exI[of _ L] exI[of _ m]) simp
qed

lemma create_shot_Some:
  assumes "create_shot s R a = Inr (s', Some shot)"
  shows "\<exists>L m. dbg_load_loop (metrics_buffer s) (window R) (R, Infinity) = Inr (L, m)
      \<and> MIN_SHOT_FRAMES \<le> R - L
      \<and> key_frames.truncate shot = sample_key_frames (int (length (dbg_frames_buffer s))) L R
      \<and> frame_start shot = max 0 (stance_idx shot - 10)
      \<and> frame_end shot = min (int (length (metrics_buffer s))) (followthrough_idx shot + 10)
      \<and> frame_metrics shot = py_slice (metrics_buffer s) (frame_start shot) (frame_end shot)
      \<and> load_angle shot = m \<and> release_angle shot = a
      \<and> shot_num shot = shot_count s + 1
      \<and> s' = s\<lparr> shot_count := shot_count s + 1, shots := shots s @ [shot] \<rparr>"
  using assms
  by (auto simp: create_shot_def bindE_Inr_iff Let_def window_def key_frames.truncate_def
      split: if_splits prod.splits)

lemma create_shot_None:
  assumes "create_shot s R a = Inr (s', None)"
  shows "s' = s"
  using assms
  by (auto simp: create_shot_def bindE_Inr_iff Let_def split: if_splits prod.splits)

lemma create_shot_reject:
  assumes "dbg_load_loop (metrics_buffer s) (window R) (R, Infinity) = Inr (L, m)"
    and "R - L < MIN_SHOT_FRAMES"
  shows "create_shot s R a = Inr (s, None)"
  using assms
  by (simp add: create_shot_def bindE_Inr Let_def window_def)

lemma dbg_detect_cases:
  assumes "dbg_detect s ft = Inr (s', r)"
  shows "(r = None \<and> s' = s) \<or>
         (\<exists>shot s2. r = Some shot
            \<and> create_shot s (int (length (dbg_frames_buffer s)) - 1) (the (f_elbow_angle ft)) = Inr (s2, Some shot)
            \<and> s' = s2\<lparr> dbg_last_shot_frame := int (length (dbg_frames_buffer s)) - 1 \<rparr>
            \<and> STABILITY_REQUIRED \<le> dbg_stability_count s
            \<and> COOLDOWN_FRAMES \<le> int (length (dbg_frames_buffer s)) - 1 - dbg_last_shot_frame s
            \<and> (\<exists>a. f_elbow_angle ft = Some a \<and> RELEASE_ANGLE < a)
            \<and> f_wrist_above_shoulder ft)"
  using assms
  by (auto simp: dbg_detect_def Let_def bindE_Inr_iff truthy_def
      split: if_splits option.splits dest: create_shot_None)

lemma process_frame_cases:
  assumes "process_frame ang s frame lm vis fnum ts = Inr (s', r)"
  shows "\<exists>s1 ft. dbg_ingest ang s frame lm vis fnum ts = Inr (s1, ft) \<and> dbg_detect s1 ft = Inr (s', r)"
  using assms by (auto simp: process_frame_def bindE_Inr_iff)

lemma process_frame_Some:
  assumes "process_frame ang s frame lm vis fnum ts = Inr (s', Some shot)"
  shows "\<exists>s1 ft L m. dbg_ingest ang s frame lm vis fnum ts = Inr (s1, ft)
      \<and> s' = s1\<lparr> shot_count := shot_count s1 + 1, shots := shots s1 @ [shot],
                   dbg_last_shot_frame := int (length (dbg_frames_buffer s1)) - 1 \<rparr>
      \<and> dbg_load_loop (metrics_buffer s1) (window (int (length (dbg_frames_buffer s1)) - 1))
           (int (length (dbg_frames_buffer s1)) - 1, Infinity) = Inr (L, m)
      \<and> 0 \<le> L \<and> L + MIN_SHOT_FRAMES \<le> int (length (dbg_frames_buffer s1)) - 1
      \<and> L \<in> set (window (int (length (dbg_frames_buffer s1)) - 1))
      \<and> key_frames.truncate shot =
          sample_key_frames (int (length (dbg_frames_buffer s1))) L (int (length (dbg_frames_buffer s1)) - 1)
      \<and> frame_start shot = max 0 (stance_idx shot - 10)
      \<and> frame_end shot = min (int (length (metrics_buffer s1))) (followthrough_idx shot + 10)
      \<and> frame_metrics shot = py_slice (metrics_buffer s1) (frame_start shot) (frame_end shot)
      \<and> load_angle shot = m
      \<and> STABILITY_REQUIRED \<le> dbg_stability_count s1
      \<and> COOLDOWN_FRAMES \<le> int (length (dbg_frames_buffer s1)) - 1 - dbg_last_shot_frame s1
      \<and> (\<exists>a. f_elbow_angle ft = Some a \<and> RELEASE_ANGLE < a \<and> release_angle shot = a)
      \<and> f_wrist_above_shoulder ft"
proof -
  from process_frame_cases[OF assms] obtain s1 ft where
    i: "dbg_ingest ang s frame lm vis fnum ts = Inr (s1, ft)"
    and d: "dbg_detect s1 ft = Inr (s', Some shot)"
    by blast
  let ?R = "int (length (dbg_frames_buffer s1)) - 1"
  from dbg_detect_cases[OF d] obtain s2 where
    c: "create_shot s1 ?R (the (f_elbow_angle ft)) = Inr (s2, Some shot)"
    and s': "s' = s2\<lparr> dbg_last_shot_frame := ?R \<rparr>"
    and g: "STABILITY_REQUIRED \<le> dbg_stability_count s1"
      "COOLDOWN_FRAMES \<le> ?R - dbg_last_shot_frame s1"
      "\<exists>a. f_elbow_angle ft = Some a \<and> RELEASE_ANGLE < a"
      "f_wrist_above_shoulder ft"
    by auto
  from create_shot_Some[OF c] obtain L m where
    l: "dbg_load_loop (metrics_buffer s1) (window ?R) (?R, Infinity) = Inr (L, m)"
    and dur: "MIN_SHOT_FRAMES \<le> ?R - L"
    and k: "key_frames.truncate shot = sample_key_frames (int (length (dbg_frames_buffer s1))) L ?R"
    and w: "frame_start shot = max 0 (stance_idx shot - 10)"
      "frame_end shot = min (int (length (metrics_buffer s1))) (followthrough_idx shot + 10)"
      "frame_metrics shot = py_slice (metrics_buffer s1) (frame_start shot) (frame_end shot)"
    and m: "load_angle shot = m" "release_angle shot = the (f_elbow_angle ft)"
    and s2: "s2 = s1\<lparr> shot_count := shot_count s1 + 1, shots := shots s1 @ [shot] \<rparr>"
    by blast
  from dbg_load_loop_range[OF l] dur have Lw: "L \<in> set (window ?R)"
    by (auto simp: MIN_SHOT_FRAMES_def)
  then have L0: "0 \<le> L" by (simp add: set_window)
  from g(3) m(2) have a: "\<exists>a. f_elbow_angle ft = Some a \<and> RELEASE_ANGLE < a \<and> release_angle shot = a"
    by auto
  show ?thesis
    using i s' s2 l L0 dur Lw k w m(1) g(1,2,4) a
    by (intro exI[of _ s1] exI[of _ ft] exI[of _ L] exI[of _ m]) simp
qed

lemma truncate_fields:
  "stance_idx (key_frames.truncate k) = stance_idx k"
  "load_idx (key_frames.truncate k) = load_idx k"
  "mid1_idx (key_frames.truncate k) = mid1_idx k"
  "mid2_idx (key_frames.truncate k) = mid2_idx k"
  "mid3_idx (key_frames.truncate k) = mid3_idx k"
  "mid4_idx (key_frames.truncate k) = mid4_idx k"
  "release_idx (key_frames.truncate k) = release_idx k"
  "followthrough_idx (key_frames.truncate k) = followthrough_idx k"
  by (simp_all add: key_frames.truncate_def)

lemma chain_truncate: "key_frame_chain n (key_frames.truncate k) = key_frame_chain n k"
  by (simp add: key_frame_chain_def truncate_fields)

lemma formulas_truncate: "key_frame_formulas n (key_frames.truncate k) = key_frame_formulas n k"
  by (simp add: key_frame_formulas_def truncate_fields)

section \<open>Two evaluated calls\<close>

text \<open>\<open>dip_state\<close> is reached from \<open>__init__\<close> by feeding its 24 poses: no call returns
  an event, and the buffers and counters are those of \<open>dip_state\<close>.\<close>

lemma dip_state_reached:
  "(case run read_angle (init ''right'') dip_frames of
      Inr (s, rs) \<Rightarrow>
        rs = replicate 24 None \<and> side s = side dip_state \<and>
        frames_buffer s = frames_buffer dip_state \<and> elbow_angles s = elbow_angles dip_state \<and>
        wrist_heights s = wrist_heights dip_state \<and>
        stability_count s = stability_count dip_state \<and>
        last_shot_frame s = last_shot_frame dip_state
    | _ \<Rightarrow> False)"
  by code_simp

lemma dip_update_eval:
  "(case update read_angle 0 dip_state 24 (pose 170) full_vis of
      Inr (s', Some (k, ev)) \<Rightarrow>
        length (frames_buffer s') = 25 \<and> key_list k = [7, 12, 14, 16, 19, 21, 24, 24]
        \<and> elbow_angle_load ev = Angle 80 \<and> elbow_angle_release ev = 170
    | _ \<Rightarrow> False)"
  by code_simp

lemma dbg_dip_update_eval:
  "(case process_frame read_angle dbg_dip_state 24 (pose 170) full_vis 25 0 of
      Inr (s', Some shot) \<Rightarrow>
        length (dbg_frames_buffer s') = 25 \<and> key_list (key_frames.truncate shot) = [7, 12, 14, 16, 19, 21, 24, 24]
        \<and> load_angle shot = Angle 80 \<and> release_angle shot = 170
        \<and> frame_start shot = 0 \<and> frame_end shot = 25 \<and> length (frame_metrics shot) = 25
    | _ \<Rightarrow> False)"
  by code_simp

lemma dip_update:
  "\<exists>s' k ev. update read_angle 0 dip_state 24 (pose 170) full_vis = Inr (s', Some (k, ev))
     \<and> length (frames_buffer s') = 25 \<and> key_list k = [7, 12, 14, 16, 19, 21, 24, 24]
     \<and> elbow_angle_load ev = Angle 80 \<and> elbow_angle_release ev = 170"
  using dip_update_eval
  by (auto split: sum.splits option.splits prod.splits)

lemma dbg_dip_update:
  "\<exists>s' shot. process_frame read_angle dbg_dip_state 24 (pose 170) full_vis 25 0 = Inr (s', Some shot)
     \<and> length (dbg_frames_buffer s') = 25
     \<and> key_list (key_frames.truncate shot) = [7, 12, 14, 16, 19, 21, 24, 24]
     \<and> load_angle shot = Angle 80 \<and> release_angle shot = 170
     \<and> frame_start shot = 0 \<and> frame_end shot = 25 \<and> length (frame_metrics shot) = 25"
  using dbg_dip_update_eval
  by (auto split: sum.splits option.splits prod.splits)

section \<open>Release index, duration and order of the key frames\<close>

lemma update_Some_keys:
  assumes "update ang now s frame lm vis = Inr (s', Some (k, ev))"
  shows "\<exists>L. 0 \<le> L \<and> L + MIN_SHOT_FRAMES \<le> int (length (frames_buffer s')) - 1
     \<and> k = sample_key_frames (int (length (frames_buffer s'))) L (int (length (frames_buffer s')) - 1)"
proof -
  from update_Some[OF assms] obtain s1 L where
    "s' = s1\<lparr> last_shot_frame := int (length (frames_buffer s1)) - 1 \<rparr>"
    "0 \<le> L" "L + MIN_SHOT_FRAMES \<le> int (length (frames_buffer s1)) - 1"
    "k = sample_key_frames (int (length (frames_buffer s1))) L (int (length (frames_buffer s1)) - 1)"
    by blast
  then show ?thesis by (intro exI[of _ L]) simp
qed

lemma process_frame_Some_keys:
  assumes "process_frame ang s frame lm vis fnum ts = Inr (s', Some shot)"
  shows "\<exists>L. 0 \<le> L \<and> L + MIN_SHOT_FRAMES \<le> int (length (dbg_frames_buffer s')) - 1
     \<and> key_frames.truncate shot =
         sample_key_frames (int (length (dbg_frames_buffer s'))) L (int (length (dbg_frames_buffer s')) - 1)"
proof -
  from process_frame_Some[OF assms] obtain s1 L where
    "s' = s1\<lparr> shot_count := shot_count s1 + 1, shots := shots s1 @ [shot],
                   dbg_last_shot_frame := int (length (dbg_frames_buffer s1)) - 1 \<rparr>"
    "0 \<le> L" "L + MIN_SHOT_FRAMES \<le> int (length (dbg_frames_buffer s1)) - 1"
    "key_frames.truncate shot =
       sample_key_frames (int (length (dbg_frames_buffer s1))) L (int (length (dbg_frames_buffer s1)) - 1)"
    by blast
  then show ?thesis by (intro exI[of _ L]) simp
qed

lemma sampled_newest:
  assumes "0 \<le> L" "L + MIN_SHOT_FRAMES \<le> n - 1"
  shows "load_idx (sample_key_frames n L (n - 1)) = L"
    and "release_idx (sample_key_frames n L (n - 1)) = n - 1"
    and "followthrough_idx (sample_key_frames n L (n - 1)) = n - 1"
    and "key_frame_chain n (sample_key_frames n L (n - 1))"
    and "key_frame_formulas n (sample_key_frames n L (n - 1))"
proof -
  have le: "L \<le> n - 1" using assms by (simp add: MIN_SHOT_FRAMES_def)
  note f = sample_key_frames_fields[OF assms(1) le order_refl]
  show "load_idx (sample_key_frames n L (n - 1)) = L" by (rule f)
  show "release_idx (sample_key_frames n L (n - 1)) = n - 1" by (rule f)
  show "followthrough_idx (sample_key_frames n L (n - 1)) = n - 1" unfolding f by simp
  show "key_frame_chain n (sample_key_frames n L (n - 1))"
    by (rule sample_key_frames_chain[OF assms(1) le order_refl])
  show "key_frame_formulas n (sample_key_frames n L (n - 1))"
    by (rule sample_key_frames_chain[OF assms(1) le order_refl])
qed

text \<open>
  Claim C10. Whenever \<open>update\<close> (live) or \<open>process_frame\<close> (debug) emits an event, the
  release index is the newest buffer index, \<open>len(self.frames_buffer) - 1\<close>: the detection
  looks at the frame just buffered and nowhere ahead. The follow-through index,
  \<open>min(release + 5, len - 1)\<close>, is therefore the release index itself, so no emitted
  event has any of the five frames of padding after the release.
\<close>

theorem release_is_newest_frame:
  "(update ang now s frame lm vis = Inr (s', Some (k, ev)) \<longrightarrow>
      release_idx k = int (length (frames_buffer s')) - 1 \<and>
      followthrough_idx k = min (release_idx k + 5) (int (length (frames_buffer s')) - 1) \<and>
      followthrough_idx k = release_idx k) \<and>
   (process_frame dang d dframe dlm dvis fnum ts = Inr (d', Some shot) \<longrightarrow>
      release_idx shot = int (length (dbg_frames_buffer d')) - 1 \<and>
      followthrough_idx shot = min (release_idx shot + 5) (int (length (dbg_frames_buffer d')) - 1) \<and>
      followthrough_idx shot = release_idx shot)"
proof (intro conjI impI)
  assume a: "update ang now s frame lm vis = Inr (s', Some (k, ev))"
  from update_Some_keys[OF a] obtain L where L: "0 \<le> L"
    "L + MIN_SHOT_FRAMES \<le> int (length (frames_buffer s')) - 1"
    and k: "k = sample_key_frames (int (length (frames_buffer s'))) L (int (length (frames_buffer s')) - 1)"
    by blast
  show r: "release_idx k = int (length (frames_buffer s')) - 1"
    unfolding k by (rule sampled_newest[OF L])
  show f: "followthrough_idx k = release_idx k"
    unfolding k sampled_newest[OF L] ..
  show "followthrough_idx k = min (release_idx k + 5) (int (length (frames_buffer s')) - 1)"
    unfolding f r by simp
next
  assume a: "process_frame dang d dframe dlm dvis fnum ts = Inr (d', Some shot)"
  from process_frame_Some_keys[OF a] obtain L where L: "0 \<le> L"
    "L + MIN_SHOT_FRAMES \<le> int (length (dbg_frames_buffer d')) - 1"
    and k: "key_frames.truncate shot =
      sample_key_frames (int (length (dbg_frames_buffer d'))) L (int (length (dbg_frames_buffer d')) - 1)"
    by blast
  have "release_idx (key_frames.truncate shot) = int (length (dbg_frames_buffer d')) - 1"
    unfolding k by (rule sampled_newest[OF L])
  then show r: "release_idx shot = int (length (dbg_frames_buffer d')) - 1"
    by (simp add: truncate_fields)
  have "followthrough_idx (key_frames.truncate shot) = int (length (dbg_frames_buffer d')) - 1"
    unfolding k by (rule sampled_newest[OF L])
  then show f: "followthrough_idx shot = release_idx shot"
    using r by (simp add: truncate_fields)
  show "followthrough_idx shot = min (release_idx shot + 5) (int (length (dbg_frames_buffer d')) - 1)"
    unfolding f r by simp
qed

theorem release_is_newest_frame_witness:
  "\<exists>s' k ev d' shot.
     update read_angle 0 dip_state 24 (pose 170) full_vis = Inr (s', Some (k, ev)) \<and>
     length (frames_buffer s') = 25 \<and> release_idx k = 24 \<and> followthrough_idx k = 24 \<and>
     process_frame read_angle dbg_dip_state 24 (pose 170) full_vis 25 0 = Inr (d', Some shot) \<and>
     length (dbg_frames_buffer d') = 25 \<and> release_idx shot = 24 \<and> followthrough_idx shot = 24"
proof -
  from dip_update obtain s' k ev where
    u: "update read_angle 0 dip_state 24 (pose 170) full_vis = Inr (s', Some (k, ev))"
    and n: "length (frames_buffer s') = 25"
    by blast
  from dbg_dip_update obtain d' shot where
    p: "process_frame read_angle dbg_dip_state 24 (pose 170) full_vis 25 0 = Inr (d', Some shot)"
    and dn: "length (dbg_frames_buffer d') = 25"
    by blast
  from release_is_newest_frame[of read_angle 0 dip_state 24 "pose 170" full_vis s' k ev
      read_angle dbg_dip_state 24 "pose 170" full_vis 25 0 d' shot] u p n dn
  have "release_idx k = 24 \<and> followthrough_idx k = 24 \<and>
        release_idx shot = 24 \<and> followthrough_idx shot = 24"
    by simp
  with u p n dn show ?thesis by blast
qed

lemma detect_reject:
  assumes "load_loop (elbow_angles s) (window (int (length (frames_buffer s)) - 1))
             (int (length (frames_buffer s)) - 1, Infinity) = Inr (L, m)"
    and "int (length (frames_buffer s)) - 1 - L < MIN_SHOT_FRAMES"
  shows "detect ang now s ft = Inr (s, None)"
  using create_shot_from_release_None[OF assms]
  by (simp add: detect_def Let_def bindE_Inr)

lemma dbg_detect_reject:
  assumes "dbg_load_loop (metrics_buffer s) (window (int (length (dbg_frames_buffer s)) - 1))
             (int (length (dbg_frames_buffer s)) - 1, Infinity) = Inr (L, m)"
    and "int (length (dbg_frames_buffer s)) - 1 - L < MIN_SHOT_FRAMES"
  shows "dbg_detect s ft = Inr (s, None)"
  using create_shot_reject[OF assms]
  by (simp add: dbg_detect_def Let_def bindE_Inr)

lemma short_ingest_eval:
  "(case ingest read_angle (steady_state 7) 7 (pose 170) full_vis of
      Inr (s1, ft) \<Rightarrow>
        length (frames_buffer s1) = 8 \<and>
        load_loop (elbow_angles s1) (window 7) (7, Infinity) = Inr (0, Angle 170) \<and>
        stability_count s1 = 8 \<and> last_shot_frame s1 = - 100 \<and>
        f_elbow_angle ft = Some 170 \<and> f_wrist_above_shoulder ft
    | _ \<Rightarrow> False)"
  by code_simp

lemma short_ingest:
  "\<exists>s1 ft. ingest read_angle (steady_state 7) 7 (pose 170) full_vis = Inr (s1, ft) \<and>
        length (frames_buffer s1) = 8 \<and>
        load_loop (elbow_angles s1) (window 7) (7, Infinity) = Inr (0, Angle 170) \<and>
        stability_count s1 = 8 \<and> last_shot_frame s1 = - 100 \<and>
        f_elbow_angle ft = Some 170 \<and> f_wrist_above_shoulder ft"
  using short_ingest_eval by (auto split: sum.splits prod.splits)

lemma dbg_short_ingest_eval:
  "(case dbg_ingest read_angle (dbg_steady_state 7) 7 (pose 170) full_vis 8 0 of
      Inr (s1, ft) \<Rightarrow>
        length (dbg_frames_buffer s1) = 8 \<and>
        dbg_load_loop (metrics_buffer s1) (window 7) (7, Infinity) = Inr (0, Angle 170) \<and>
        dbg_stability_count s1 = 8 \<and> dbg_last_shot_frame s1 = - 100 \<and>
        f_elbow_angle ft = Some 170 \<and> f_wrist_above_shoulder ft
    | _ \<Rightarrow> False)"
  by code_simp

lemma dbg_short_ingest:
  "\<exists>s1 ft. dbg_ingest read_angle (dbg_steady_state 7) 7 (pose 170) full_vis 8 0 = Inr (s1, ft) \<and>
        length (dbg_frames_buffer s1) = 8 \<and>
        dbg_load_loop (metrics_buffer s1) (window 7) (7, Infinity) = Inr (0, Angle 170) \<and>
        dbg_stability_count s1 = 8 \<and> dbg_last_shot_frame s1 = - 100 \<and>
        f_elbow_angle ft = Some 170 \<and> f_wrist_above_shoulder ft"
  using dbg_short_ingest_eval by (auto split: sum.splits prod.splits)

text \<open>
  Claim C5. Every event that \<open>update\<close> or \<open>process_frame\<close> emits has its release index
  at least \<open>MIN_SHOT_FRAMES = 10\<close> above its load index. When the backward search from
  the newest frame finds the load fewer than 10 frames back, the call returns no
  event.
\<close>

theorem minimum_shot_duration:
  "(update ang now s frame lm vis = Inr (s', Some (k, ev)) \<longrightarrow>
      MIN_SHOT_FRAMES \<le> release_idx k - load_idx k) \<and>
   (ingest ang s frame lm vis = Inr (s1, ft) \<and>
    load_loop (elbow_angles s1) (window (int (length (frames_buffer s1)) - 1))
      (int (length (frames_buffer s1)) - 1, Infinity) = Inr (L, m) \<and>
    int (length (frames_buffer s1)) - 1 - L < MIN_SHOT_FRAMES \<longrightarrow>
      update ang now s frame lm vis = Inr (s1, None)) \<and>
   (process_frame dang d dframe dlm dvis fnum ts = Inr (d', Some shot) \<longrightarrow>
      MIN_SHOT_FRAMES \<le> release_idx shot - load_idx shot) \<and>
   (dbg_ingest dang d dframe dlm dvis fnum ts = Inr (d1, dft) \<and>
    dbg_load_loop (metrics_buffer d1) (window (int (length (dbg_frames_buffer d1)) - 1))
      (int (length (dbg_frames_buffer d1)) - 1, Infinity) = Inr (dL, dm) \<and>
    int (length (dbg_frames_buffer d1)) - 1 - dL < MIN_SHOT_FRAMES \<longrightarrow>
      process_frame dang d dframe dlm dvis fnum ts = Inr (d1, None))"
proof (intro conjI impI)
  assume a: "update ang now s frame lm vis = Inr (s', Some (k, ev))"
  from update_Some_keys[OF a] obtain L' where L: "0 \<le> L'"
    "L' + MIN_SHOT_FRAMES \<le> int (length (frames_buffer s')) - 1"
    and k: "k = sample_key_frames (int (length (frames_buffer s'))) L' (int (length (frames_buffer s')) - 1)"
    by blast
  show "MIN_SHOT_FRAMES \<le> release_idx k - load_idx k"
    unfolding k sampled_newest[OF L] using L(2) by simp
next
  assume a: "ingest ang s frame lm vis = Inr (s1, ft) \<and>
    load_loop (elbow_angles s1) (window (int (length (frames_buffer s1)) - 1))
      (int (length (frames_buffer s1)) - 1, Infinity) = Inr (L, m) \<and>
    int (length (frames_buffer s1)) - 1 - L < MIN_SHOT_FRAMES"
  then have "detect ang now s1 ft = Inr (s1, None)"
    by (intro detect_reject) auto
  with a show "update ang now s frame lm vis = Inr (s1, None)"
    by (simp add: update_def bindE_Inr)
next
  assume a: "process_frame dang d dframe dlm dvis fnum ts = Inr (d', Some shot)"
  from process_frame_Some_keys[OF a] obtain L' where L: "0 \<le> L'"
    "L' + MIN_SHOT_FRAMES \<le> int (length (dbg_frames_buffer d')) - 1"
    and k: "key_frames.truncate shot =
      sample_key_frames (int (length (dbg_frames_buffer d'))) L' (int (length (dbg_frames_buffer d')) - 1)"
    by blast
  have "MIN_SHOT_FRAMES \<le> release_idx (key_frames.truncate shot) - load_idx (key_frames.truncate shot)"
    unfolding k sampled_newest[OF L] using L(2) by simp
  then show "MIN_SHOT_FRAMES \<le> release_idx shot - load_idx shot"
    by (simp add: truncate_fields)
next
  assume a: "dbg_ingest dang d dframe dlm dvis fnum ts = Inr (d1, dft) \<and>
    dbg_load_loop (metrics_buffer d1) (window (int (length (dbg_frames_buffer d1)) - 1))
      (int (length (dbg_frames_buffer d1)) - 1, Infinity) = Inr (dL, dm) \<and>
    int (length (dbg_frames_buffer d1)) - 1 - dL < MIN_SHOT_FRAMES"
  then have "dbg_detect d1 dft = Inr (d1, None)"
    by (intro dbg_detect_reject) auto
  with a show "process_frame dang d dframe dlm dvis fnum ts = Inr (d1, None)"
    by (simp add: process_frame_def bindE_Inr)
qed

theorem minimum_shot_duration_witness:
  "\<exists>s' k ev s1 ft d' shot d1 dft.
     update read_angle 0 dip_state 24 (pose 170) full_vis = Inr (s', Some (k, ev)) \<and>
     key_list k = [7, 12, 14, 16, 19, 21, 24, 24] \<and>
     MIN_SHOT_FRAMES \<le> release_idx k - load_idx k \<and>
     ingest read_angle (steady_state 7) 7 (pose 170) full_vis = Inr (s1, ft) \<and>
     load_loop (elbow_angles s1) (window 7) (7, Infinity) = Inr (0, Angle 170) \<and>
     update read_angle 0 (steady_state 7) 7 (pose 170) full_vis = Inr (s1, None) \<and>
     process_frame read_angle dbg_dip_state 24 (pose 170) full_vis 25 0 = Inr (d', Some shot) \<and>
     MIN_SHOT_FRAMES \<le> release_idx shot - load_idx shot \<and>
     dbg_ingest read_angle (dbg_steady_state 7) 7 (pose 170) full_vis 8 0 = Inr (d1, dft) \<and>
     dbg_load_loop (metrics_buffer d1) (window 7) (7, Infinity) = Inr (0, Angle 170) \<and>
     process_frame read_angle (dbg_steady_state 7) 7 (pose 170) full_vis 8 0 = Inr (d1, None)"
proof -
  from dip_update obtain s' k ev where
    u: "update read_angle 0 dip_state 24 (pose 170) full_vis = Inr (s', Some (k, ev))"
    and kl: "key_list k = [7, 12, 14, 16, 19, 21, 24, 24]"
    by blast
  from dbg_dip_update obtain d' shot where
    p: "process_frame read_angle dbg_dip_state 24 (pose 170) full_vis 25 0 = Inr (d', Some shot)"
    by blast
  from short_ingest obtain s1 ft where
    i: "ingest read_angle (steady_state 7) 7 (pose 170) full_vis = Inr (s1, ft)"
    and n: "length (frames_buffer s1) = 8"
    and l: "load_loop (elbow_angles s1) (window 7) (7, Infinity) = Inr (0, Angle 170)"
    by blast
  from dbg_short_ingest obtain d1 dft where
    di: "dbg_ingest read_angle (dbg_steady_state 7) 7 (pose 170) full_vis 8 0 = Inr (d1, dft)"
    and dn: "length (dbg_frames_buffer d1) = 8"
    and dl: "dbg_load_loop (metrics_buffer d1) (window 7) (7, Infinity) = Inr (0, Angle 170)"
    by blast
  note a = minimum_shot_duration[where ang = read_angle and now = 0 and s = dip_state
      and frame = 24 and lm = "pose 170" and vis = full_vis and s' = s' and k = k and ev = ev
      and dang = read_angle and d = dbg_dip_state and dframe = 24 and dlm = "pose 170"
      and dvis = full_vis and fnum = 25 and ts = 0 and d' = d' and shot = shot]
  note r = minimum_shot_duration[where ang = read_angle and now = 0 and s = "steady_state 7"
      and frame = 7 and lm = "pose 170" and vis = full_vis and ?s1.0 = s1 and ft = ft
      and L = 0 and m = "Angle 170"
      and dang = read_angle and d = "dbg_steady_state 7" and dframe = 7 and dlm = "pose 170"
      and dvis = full_vis and fnum = 8 and ts = 0 and ?d1.0 = d1 and dft = dft
      and dL = 0 and dm = "Angle 170"]
  have acc: "MIN_SHOT_FRAMES \<le> release_idx k - load_idx k"
    "MIN_SHOT_FRAMES \<le> release_idx shot - load_idx shot"
    using a u p by blast+
  have rej: "update read_angle 0 (steady_state 7) 7 (pose 170) full_vis = Inr (s1, None)"
    "process_frame read_angle (dbg_steady_state 7) 7 (pose 170) full_vis 8 0 = Inr (d1, None)"
    using r i n l di dn dl by (simp_all add: MIN_SHOT_FRAMES_def)
  show ?thesis
    using u kl acc i l rej p di dl by blast
qed

lemma chain_in_range:
  "key_frame_chain n k \<Longrightarrow> list_all (\<lambda>i. 0 \<le> i \<and> i \<le> n - 1) (key_list k)"
  by (simp add: key_frame_chain_def key_list_def)

text \<open>
  Claim C6. For every event that \<open>update\<close> or \<open>process_frame\<close> emits, with \<open>n\<close> the
  buffer length at that moment, the eight key-frame indices are ordered
  \<open>0 \<le> stance \<le> load \<le> mid1 \<le> mid2 \<le> mid3 \<le> mid4 \<le> release \<le> follow_through \<le> n - 1\<close>,
  each lies in \<open>[0, n - 1]\<close>, and they satisfy the sampling formulas:
  \<open>mid_i = load + floor(fraction_i * (release - load))\<close> for the fractions
  0.20, 0.40, 0.60, 0.80, \<open>stance = max(0, load - 5)\<close> and
  \<open>follow_through = min(release + 5, n - 1)\<close>.
\<close>

theorem key_frames_ordered:
  "(update ang now s frame lm vis = Inr (s', Some (k, ev)) \<longrightarrow>
      key_frame_chain (int (length (frames_buffer s'))) k \<and>
      key_frame_formulas (int (length (frames_buffer s'))) k \<and>
      list_all (\<lambda>i. 0 \<le> i \<and> i \<le> int (length (frames_buffer s')) - 1) (key_list k)) \<and>
   (process_frame dang d dframe dlm dvis fnum ts = Inr (d', Some shot) \<longrightarrow>
      key_frame_chain (int (length (dbg_frames_buffer d'))) shot \<and>
      key_frame_formulas (int (length (dbg_frames_buffer d'))) shot \<and>
      list_all (\<lambda>i. 0 \<le> i \<and> i \<le> int (length (dbg_frames_buffer d')) - 1)
        (key_list (key_frames.truncate shot)))"
proof (intro conjI impI)
  assume a: "update ang now s frame lm vis = Inr (s', Some (k, ev))"
  from update_Some_keys[OF a] obtain L where L: "0 \<le> L"
    "L + MIN_SHOT_FRAMES \<le> int (length (frames_buffer s')) - 1"
    and k: "k = sample_key_frames (int (length (frames_buffer s'))) L (int (length (frames_buffer s')) - 1)"
    by blast
  show c: "key_frame_chain (int (length (frames_buffer s'))) k"
    unfolding k by (rule sampled_newest[OF L])
  show "key_frame_formulas (int (length (frames_buffer s'))) k"
    unfolding k by (rule sampled_newest[OF L])
  show "list_all (\<lambda>i. 0 \<le> i \<and> i \<le> int (length (frames_buffer s')) - 1) (key_list k)"
    by (rule chain_in_range[OF c])
next
  assume a: "process_frame dang d dframe dlm dvis fnum ts = Inr (d', Some shot)"
  from process_frame_Some_keys[OF a] obtain L where L: "0 \<le> L"
    "L + MIN_SHOT_FRAMES \<le> int (length (dbg_frames_buffer d')) - 1"
    and k: "key_frames.truncate shot =
      sample_key_frames (int (length (dbg_frames_buffer d'))) L (int (length (dbg_frames_buffer d')) - 1)"
    by blast
  have c: "key_frame_chain (int (length (dbg_frames_buffer d'))) (key_frames.truncate shot)"
    unfolding k by (rule sampled_newest[OF L])
  then show "key_frame_chain (int (length (dbg_frames_buffer d'))) shot"
    by (simp add: chain_truncate)
  have "key_frame_formulas (int (length (dbg_frames_buffer d'))) (key_frames.truncate shot)"
    unfolding k by (rule sampled_newest[OF L])
  then show "key_frame_formulas (int (length (dbg_frames_buffer d'))) shot"
    by (simp add: formulas_truncate)
  show "list_all (\<lambda>i. 0 \<le> i \<and> i \<le> int (length (dbg_frames_buffer d')) - 1)
        (key_list (key_frames.truncate shot))"
    by (rule chain_in_range[OF c])
qed

theorem key_frames_ordered_witness:
  "\<exists>s' k ev d' shot.
     update read_angle 0 dip_state 24 (pose 170) full_vis = Inr (s', Some (k, ev)) \<and>
     length (frames_buffer s') = 25 \<and>
     key_list k = [7, 12, 14, 16, 19, 21, 24, 24] \<and>
     key_frame_chain 25 k \<and> key_frame_formulas 25 k \<and>
     process_frame read_angle dbg_dip_state 24 (pose 170) full_vis 25 0 = Inr (d', Some shot) \<and>
     length (dbg_frames_buffer d') = 25 \<and>
     key_list (key_frames.truncate shot) = [7, 12, 14, 16, 19, 21, 24, 24] \<and>
     key_frame_chain 25 shot \<and> key_frame_formulas 25 shot"
proof -
  from dip_update obtain s' k ev where
    u: "update read_angle 0 dip_state 24 (pose 170) full_vis = Inr (s', Some (k, ev))"
    and n: "length (frames_buffer s') = 25"
    and kl: "key_list k = [7, 12, 14, 16, 19, 21, 24, 24]"
    by blast
  from dbg_dip_update obtain d' shot where
    p: "process_frame read_angle dbg_dip_state 24 (pose 170) full_vis 25 0 = Inr (d', Some shot)"
    and dn: "length (dbg_frames_buffer d') = 25"
    and dkl: "key_list (key_frames.truncate shot) = [7, 12, 14, 16, 19, 21, 24, 24]"
    by blast
  from key_frames_ordered[of read_angle 0 dip_state 24 "pose 170" full_vis s' k ev
      read_angle dbg_dip_state 24 "pose 170" full_vis 25 0 d' shot] u p n dn
  have "key_frame_chain 25 k \<and> key_frame_formulas 25 k \<and>
        key_frame_chain 25 shot \<and> key_frame_formulas 25 shot"
    by simp
  with u p n dn kl dkl show ?thesis by blast
qed

section \<open>Buffering in closed form, and calls that never raise\<close>

lemma ingest_ft:
  "ingest ang s frame lm vis = Inr (s1, ft) \<Longrightarrow>
   ft = extract_features ang (side s) (stability_count s) lm vis"
  by (auto simp: ingest_def Let_def bindE_Inr_iff)

lemma ingest_eq:
  assumes "lockstep s"
  shows "ingest ang s frame lm vis =
     Inr (ingested ang s frame lm vis, extract_features ang (side s) (stability_count s) lm vis)"
proof -
  let ?ft = "extract_features ang (side s) (stability_count s) lm vis"
  let ?s0 = "s\<lparr> stability_count := f_stability ?ft,
              frames_buffer := frames_buffer s @ [frame],
              landmarks_buffer := landmarks_buffer s @ [lm],
              elbow_angles := elbow_angles s @ [f_elbow_angle ?ft],
              wrist_heights := wrist_heights s @ [f_wrist_y ?ft] \<rparr>"
  have "lockstep ?s0" using assms by (simp add: lockstep_def)
  from trim_buffer_eq[OF this] show ?thesis
    by (simp add: ingest_def ingested_def Let_def bindE_Inr)
qed

lemma excess_le: "0 \<le> cap \<Longrightarrow> excess cap xs \<le> length xs"
  by (simp add: excess_def)

lemma length_drop_excess:
  "0 \<le> cap \<Longrightarrow> int (length (drop (excess cap xs) xs)) = min (int (length xs)) cap"
  by (auto simp: excess_def)

lemma ingested_fields:
  "side (ingested ang s frame lm vis) = side s"
  "stability_count (ingested ang s frame lm vis) =
     f_stability (extract_features ang (side s) (stability_count s) lm vis)"
  "last_shot_frame (ingested ang s frame lm vis) =
     rebase (last_shot_frame s) (excess max_buffer (frames_buffer s @ [frame]))"
  "int (length (frames_buffer (ingested ang s frame lm vis))) =
     min (int (length (frames_buffer s)) + 1) max_buffer"
  by (simp_all add: ingested_def Let_def excess_def max_buffer_def)

lemma ingested_lockstep:
  "lockstep s \<Longrightarrow> lockstep (ingested ang s frame lm vis)"
  by (simp add: lockstep_def ingested_def Let_def)

lemma ingested_nonempty:
  "frames_buffer (ingested ang s frame lm vis) \<noteq> []"
  by (simp add: ingested_def Let_def excess_def max_buffer_def)

lemma newest_after_drop:
  assumes "k \<le> length xs"
  shows "drop k (xs @ [x]) ! nat (int (length (drop k (xs @ [x]))) - 1) = x"
proof -
  have m: "length (drop k (xs @ [x])) = Suc (length xs - k)"
    using assms by simp
  have n: "nat (int (Suc (length xs - k)) - 1) = length xs - k"
    by simp
  have "drop k (xs @ [x]) ! (length xs - k) = (xs @ [x]) ! (k + (length xs - k))"
    using assms by (intro nth_drop) simp
  also have "\<dots> = x" using assms by simp
  finally show ?thesis unfolding m n .
qed

lemma ingested_newest_angle:
  assumes "lockstep s"
  shows "elbow_angles (ingested ang s frame lm vis)
           ! nat (int (length (frames_buffer (ingested ang s frame lm vis))) - 1)
         = f_elbow_angle (extract_features ang (side s) (stability_count s) lm vis)"
proof -
  let ?k = "excess max_buffer (frames_buffer s @ [frame])"
  let ?ft = "extract_features ang (side s) (stability_count s) lm vis"
  have k: "?k \<le> length (elbow_angles s)"
    using assms by (simp add: excess_def lockstep_def max_buffer_def)
  have len: "length (frames_buffer (ingested ang s frame lm vis))
    = length (drop ?k (elbow_angles s @ [f_elbow_angle ?ft]))"
    using assms by (simp add: ingested_def Let_def lockstep_def)
  have ea: "elbow_angles (ingested ang s frame lm vis) = drop ?k (elbow_angles s @ [f_elbow_angle ?ft])"
    by (simp add: ingested_def Let_def)
  show ?thesis
    unfolding len ea by (rule newest_after_drop[OF k])
qed

lemma py_index_in_range:
  "0 \<le> i \<Longrightarrow> i \<le> int (length xs) - 1 \<Longrightarrow> py_index xs i = Inr (xs ! nat i)"
  by (simp add: py_index_def)

lemma index_all_ok:
  "list_all (\<lambda>i. 0 \<le> i \<and> i \<le> int (length xs) - 1) js \<Longrightarrow>
   index_all xs js = Inr (map (\<lambda>i. xs ! nat i) js)"
  by (induction js) (simp_all add: py_index_in_range)

lemma create_shot_from_release_total:
  assumes ls: "lockstep s" and ne: "frames_buffer s \<noteq> []"
    and rel: "elbow_angles s ! nat (int (length (frames_buffer s)) - 1) \<noteq> None"
  shows "\<exists>r. create_shot_from_release ang now s (int (length (frames_buffer s)) - 1) = Inr r"
proof -
  let ?n = "int (length (frames_buffer s))"
  let ?R = "?n - 1"
  have len: "length (elbow_angles s) = length (frames_buffer s)"
    "length (landmarks_buffer s) = length (frames_buffer s)"
    using ls by (simp_all add: lockstep_def)
  have R0: "0 \<le> ?R" using ne by (cases "frames_buffer s") auto
  have "\<forall>i\<in>set (window ?R). 0 \<le> i \<and> i < int (length (elbow_angles s))"
    using len by (auto simp: set_window)
  from load_loop_scan[OF this] obtain L m where
    l: "load_loop (elbow_angles s) (window ?R) (?R, Infinity) = Inr (L, m)"
    by (metis surj_pair)
  show ?thesis
  proof (cases "?R - L < MIN_SHOT_FRAMES")
    case True
    from create_shot_from_release_None[OF l True] show ?thesis by blast
  next
    case False
    with load_loop_range[OF l] have Lw: "L \<in> set (window ?R)"
      by (auto simp: MIN_SHOT_FRAMES_def)
    then have L0: "0 \<le> L" and LR: "L \<le> ?R" by (simp_all add: set_window)
    let ?k = "sample_key_frames ?n L ?R"
    note f = sample_key_frames_fields[OF L0 LR order_refl]
    have "key_frame_chain ?n ?k" by (rule sample_key_frames_chain[OF L0 LR order_refl])
    from index_all_ok[OF chain_in_range[OF this]]
    have ia: "index_all (frames_buffer s) (key_list ?k)
      = Inr (map (\<lambda>i. frames_buffer s ! nat i) (key_list ?k))" .
    have ra: "py_index (elbow_angles s) ?R = Inr (elbow_angles s ! nat ?R)"
      using R0 len by (intro py_index_in_range) simp_all
    have ll: "py_index (landmarks_buffer s) L = Inr (landmarks_buffer s ! nat L)"
      using L0 LR len by (intro py_index_in_range) simp_all
    have rl: "py_index (landmarks_buffer s) ?R = Inr (landmarks_buffer s ! nat ?R)"
      using R0 len by (intro py_index_in_range) simp_all
    have l': "load_loop (elbow_angles s) (py_range (max 0 (?R - 60)) ?R) (?R, Infinity) = Inr (L, m)"
      using l by (simp only: window_def)
    have "create_shot_from_release ang now s ?R =
      (if ?R - L < MIN_SHOT_FRAMES then Inr None
       else
        bindE (index_all (frames_buffer s) (key_list ?k)) (\<lambda>fs.
        bindE (if release_idx ?k < int (length (elbow_angles s))
               then py_index (elbow_angles s) (release_idx ?k) else Inr (Some 0))
          (\<lambda>release_angle.
        if release_angle = None then Inl TypeError
        else
        bindE (py_index (landmarks_buffer s) (load_idx ?k)) (\<lambda>load_landmarks.
        bindE (py_index (landmarks_buffer s) (release_idx ?k)) (\<lambda>release_landmarks.
        Inr (Some (?k,
          \<lparr> shot_number = 0,
            timestamp = now,
            frames = zip frame_labels fs,
            elbow_angle_load = m,
            elbow_angle_release = (if truthy release_angle then the release_angle else 170),
            wrist_height_release = calculate_wrist_height (side s) release_landmarks,
            knee_bend_load = calculate_knee_bend ang (side s) load_landmarks \<rparr>)))))))"
      by (simp only: create_shot_from_release_def Let_def l' bindE_Inr prod.case)
    then show ?thesis
      using False ia ra ll rl rel len
      by (simp add: bindE_Inr f)
  qed
qed

lemma detect_total:
  assumes "lockstep s" and "frames_buffer s \<noteq> []"
    and "elbow_angles s ! nat (int (length (frames_buffer s)) - 1) = f_elbow_angle ft"
  shows "\<exists>s' r. detect ang now s ft = Inr (s', r)"
proof (cases "truthy (f_elbow_angle ft)")
  case True
  then have "elbow_angles s ! nat (int (length (frames_buffer s)) - 1) \<noteq> None"
    using assms(3) by (auto simp: truthy_def split: option.splits)
  from create_shot_from_release_total[OF assms(1,2) this, of ang now]
  obtain r where "create_shot_from_release ang now s (int (length (frames_buffer s)) - 1) = Inr r"
    by blast
  then show ?thesis
    by (cases r) (simp_all add: detect_def Let_def bindE_Inr)
next
  case False
  then show ?thesis by (simp add: detect_def Let_def)
qed

lemma update_total:
  assumes "lockstep s"
  shows "\<exists>s' r. update ang now s frame lm vis = Inr (s', r)"
proof -
  let ?s1 = "ingested ang s frame lm vis"
  let ?ft = "extract_features ang (side s) (stability_count s) lm vis"
  from detect_total[OF ingested_lockstep[OF assms] ingested_nonempty ingested_newest_angle[OF assms]]
  obtain s' r where "detect ang now ?s1 ?ft = Inr (s', r)" by blast
  then show ?thesis
    by (simp add: update_def ingest_eq[OF assms] bindE_Inr)
qed

lemma update_lockstep:
  assumes "lockstep s" and "update ang now s frame lm vis = Inr (s', r)"
  shows "lockstep s'"
proof -
  from update_cases[OF assms(2)] obtain s1 ft where
    i: "ingest ang s frame lm vis = Inr (s1, ft)" and d: "detect ang now s1 ft = Inr (s', r)"
    by blast
  from i ingest_eq[OF assms(1), of ang frame lm vis] have "s1 = ingested ang s frame lm vis"
    by simp
  then have "lockstep s1" using ingested_lockstep[OF assms(1)] by simp
  with detect_cases[OF d] show ?thesis by (auto simp: lockstep_def)
qed

lemma lockstep_init: "lockstep (init sd)"
  by (simp add: lockstep_def init_def)

declare dbg_trim_buffer.simps [simp del]

lemma dbg_trim_buffer_eq:
  "dbg_lockstep s \<Longrightarrow>
   dbg_trim_buffer s = Inr (s\<lparr>
       dbg_frames_buffer := drop (excess dbg_max_buffer (dbg_frames_buffer s)) (dbg_frames_buffer s),
       metrics_buffer := drop (excess dbg_max_buffer (dbg_frames_buffer s)) (metrics_buffer s),
       dbg_last_shot_frame :=
         rebase (dbg_last_shot_frame s) (excess dbg_max_buffer (dbg_frames_buffer s)) \<rparr>)"
proof (induction s rule: dbg_trim_buffer.induct)
  case (1 s)
  show ?case
  proof (cases "int (length (dbg_frames_buffer s)) > dbg_max_buffer")
    case False
    then have k: "excess dbg_max_buffer (dbg_frames_buffer s) = 0"
      by (simp add: excess_def)
    show ?thesis
      using False by (subst dbg_trim_buffer.simps) (simp add: k rebase_0)
  next
    case True
    let ?k = "excess dbg_max_buffer (dbg_frames_buffer s)"
    let ?s = "s\<lparr> dbg_frames_buffer := tl (dbg_frames_buffer s),
                metrics_buffer := tl (metrics_buffer s),
                dbg_last_shot_frame :=
                  (if dbg_last_shot_frame s > 0 then dbg_last_shot_frame s - 1
                   else dbg_last_shot_frame s) \<rparr>"
    have ne: "dbg_frames_buffer s \<noteq> []" using True by (auto simp: dbg_max_buffer_def)
    then have ne': "metrics_buffer s \<noteq> []"
      using "1.prems" by (auto simp: dbg_lockstep_def)
    have ls: "dbg_lockstep ?s" using "1.prems" by (simp add: dbg_lockstep_def)
    have kpos: "0 < ?k" using True by (simp add: excess_def)
    have k': "excess dbg_max_buffer (dbg_frames_buffer ?s) = ?k - 1"
    proof -
      obtain n where n: "length (dbg_frames_buffer s) = Suc n"
        using ne by (cases "dbg_frames_buffer s") auto
      have "nat (int n - dbg_max_buffer) = nat (int (Suc n) - dbg_max_buffer) - 1"
        by arith
      then show ?thesis by (simp add: excess_def n)
    qed
    have dr: "\<And>xs :: 'b list. drop (?k - 1) (tl xs) = drop ?k xs"
      using kpos by (cases ?k) (simp_all add: drop_Suc)
    have rb: "rebase (if 0 < dbg_last_shot_frame s then dbg_last_shot_frame s - 1
        else dbg_last_shot_frame s) (?k - 1) = rebase (dbg_last_shot_frame s) ?k"
      using rebase_step[OF kpos, of "dbg_last_shot_frame s"] by simp
    have step: "dbg_trim_buffer s = dbg_trim_buffer ?s"
      using True ne' by (subst dbg_trim_buffer.simps) simp
    have ih: "dbg_trim_buffer ?s = Inr (s\<lparr>
       dbg_frames_buffer := drop (?k - 1) (tl (dbg_frames_buffer s)),
       metrics_buffer := drop (?k - 1) (tl (metrics_buffer s)),
       dbg_last_shot_frame := rebase (if 0 < dbg_last_shot_frame s then dbg_last_shot_frame s - 1
          else dbg_last_shot_frame s) (?k - 1) \<rparr>)"
      using "1.IH"[OF True ne' ls] unfolding k' by simp
    show ?thesis
      unfolding step ih dr rb ..
  qed
qed

lemma dbg_ingest_ft:
  "dbg_ingest ang s frame lm vis fnum ts = Inr (s1, ft) \<Longrightarrow>
   ft = extract_features ang (dbg_side s) (dbg_stability_count s) lm vis"
  by (auto simp: dbg_ingest_def Let_def bindE_Inr_iff)

lemma dbg_ingest_eq:
  assumes "dbg_lockstep s"
  shows "dbg_ingest ang s frame lm vis fnum ts =
     Inr (dbg_ingested ang s frame lm vis fnum ts,
          extract_features ang (dbg_side s) (dbg_stability_count s) lm vis)"
proof -
  let ?ft = "extract_features ang (dbg_side s) (dbg_stability_count s) lm vis"
  let ?m = "\<lparr> frame_num = fnum, timestamp_ms = ts,
                      elbow_angle = f_elbow_angle ?ft,
                      wrist_height = f_wrist_y ?ft,
                      wrist_above_shoulder = f_wrist_above_shoulder ?ft,
                      shoulder_y = map_option py_y (lm (dbg_side s @ ''_shoulder'')),
                      elbow_y = map_option py_y (lm (dbg_side s @ ''_elbow'')),
                      wrist_y = map_option py_y (lm (dbg_side s @ ''_wrist'')) \<rparr>"
  let ?s0 = "s\<lparr> dbg_stability_count := f_stability ?ft,
              dbg_frames_buffer := dbg_frames_buffer s @ [frame],
              metrics_buffer := metrics_buffer s @ [?m] \<rparr>"
  have "dbg_lockstep ?s0" using assms by (simp add: dbg_lockstep_def)
  from dbg_trim_buffer_eq[OF this] show ?thesis
    by (simp add: dbg_ingest_def dbg_ingested_def Let_def bindE_Inr)
qed

lemma dbg_ingested_fields:
  "dbg_side (dbg_ingested ang s frame lm vis fnum ts) = dbg_side s"
  "dbg_stability_count (dbg_ingested ang s frame lm vis fnum ts) =
     f_stability (extract_features ang (dbg_side s) (dbg_stability_count s) lm vis)"
  "dbg_last_shot_frame (dbg_ingested ang s frame lm vis fnum ts) =
     rebase (dbg_last_shot_frame s) (excess dbg_max_buffer (dbg_frames_buffer s @ [frame]))"
  "int (length (dbg_frames_buffer (dbg_ingested ang s frame lm vis fnum ts))) =
     min (int (length (dbg_frames_buffer s)) + 1) dbg_max_buffer"
  "shots (dbg_ingested ang s frame lm vis fnum ts) = shots s"
  "shot_count (dbg_ingested ang s frame lm vis fnum ts) = shot_count s"
  by (simp_all add: dbg_ingested_def Let_def excess_def dbg_max_buffer_def)

lemma dbg_ingested_lockstep:
  "dbg_lockstep s \<Longrightarrow> dbg_lockstep (dbg_ingested ang s frame lm vis fnum ts)"
  by (simp add: dbg_lockstep_def dbg_ingested_def Let_def)

lemma dbg_load_loop_total:
  "\<forall>i\<in>set w. 0 \<le> i \<Longrightarrow> \<exists>r. dbg_load_loop mb w acc = Inr r"
proof (induction w arbitrary: acc)
  case Nil
  then show ?case by simp
next
  case (Cons i w)
  then show ?case by (simp add: py_index_def)
qed

lemma create_shot_total: "\<exists>s' r. create_shot s R a = Inr (s', r)"
proof -
  have "\<forall>i\<in>set (window R). 0 \<le> i" by (simp add: set_window)
  from dbg_load_loop_total[OF this]
  obtain L m where
    "dbg_load_loop (metrics_buffer s) (window R) (R, Infinity) = Inr (L, m)"
    by (metis surj_pair)
  then have l: "dbg_load_loop (metrics_buffer (s\<lparr> shot_count := shot_count s + 1 \<rparr>))
     (py_range (max 0 (R - 60)) R) (R, Infinity) = Inr (L, m)"
    by (simp add: window_def)
  show ?thesis
    by (simp only: create_shot_def Let_def l bindE_Inr prod.case) simp
qed

lemma dbg_detect_total: "\<exists>s' r. dbg_detect s ft = Inr (s', r)"
proof -
  obtain s2 r where
    "create_shot s (int (length (dbg_frames_buffer s)) - 1) (the (f_elbow_angle ft)) = Inr (s2, r)"
    using create_shot_total by blast
  then show ?thesis
    by (cases r) (simp_all add: dbg_detect_def Let_def bindE_Inr)
qed

lemma process_frame_total:
  assumes "dbg_lockstep s"
  shows "\<exists>s' r. process_frame ang s frame lm vis fnum ts = Inr (s', r)"
  using dbg_detect_total
  by (simp add: process_frame_def dbg_ingest_eq[OF assms] bindE_Inr)

lemma process_frame_lockstep:
  assumes "dbg_lockstep s" and "process_frame ang s frame lm vis fnum ts = Inr (s', r)"
  shows "dbg_lockstep s'"
proof -
  from process_frame_cases[OF assms(2)] obtain s1 ft where
    i: "dbg_ingest ang s frame lm vis fnum ts = Inr (s1, ft)"
    and d: "dbg_detect s1 ft = Inr (s', r)"
    by blast
  from i dbg_ingest_eq[OF assms(1), of ang frame lm vis fnum ts]
  have "s1 = dbg_ingested ang s frame lm vis fnum ts"
    by simp
  then have l1: "dbg_lockstep s1" using dbg_ingested_lockstep[OF assms(1)] by simp
  from dbg_detect_cases[OF d] show ?thesis
  proof
    assume "r = None \<and> s' = s1"
    with l1 show ?thesis by simp
  next
    assume "\<exists>shot s2. r = Some shot
            \<and> create_shot s1 (int (length (dbg_frames_buffer s1)) - 1) (the (f_elbow_angle ft)) = Inr (s2, Some shot)
            \<and> s' = s2\<lparr> dbg_last_shot_frame := int (length (dbg_frames_buffer s1)) - 1 \<rparr>
            \<and> STABILITY_REQUIRED \<le> dbg_stability_count s1
            \<and> COOLDOWN_FRAMES \<le> int (length (dbg_frames_buffer s1)) - 1 - dbg_last_shot_frame s1
            \<and> (\<exists>a. f_elbow_angle ft = Some a \<and> RELEASE_ANGLE < a)
            \<and> f_wrist_above_shoulder ft"
    then obtain shot s2 where
      c: "create_shot s1 (int (length (dbg_frames_buffer s1)) - 1) (the (f_elbow_angle ft)) = Inr (s2, Some shot)"
      and s': "s' = s2\<lparr> dbg_last_shot_frame := int (length (dbg_frames_buffer s1)) - 1 \<rparr>"
      by blast
    from create_shot_Some[OF c] have "s2 = s1\<lparr> shot_count := shot_count s1 + 1, shots := shots s1 @ [shot] \<rparr>"
      by blast
    with s' l1 show ?thesis by (simp add: dbg_lockstep_def)
  qed
qed

lemma dbg_lockstep_init: "dbg_lockstep (dbg_init sd)"
  by (simp add: dbg_lockstep_def dbg_init_def)

section \<open>The release gate\<close>

lemma dip_lockstep: "lockstep dip_state"
  by (simp add: lockstep_def dip_state_def dip_angles_def)

lemma dbg_dip_lockstep: "dbg_lockstep dbg_dip_state"
  by (simp add: dbg_lockstep_def dbg_dip_state_def dip_angles_def)

text \<open>
  Claim C2. On a detector whose buffers are in step (every state reached from
  \<open>__init__\<close> through \<open>update\<close>, resp. \<open>process_frame\<close>), a call never raises: it returns
  a new state and either an event or \<open>None\<close>. It returns an event only if, for the frame
  just buffered, the stability counter has reached \<open>STABILITY_REQUIRED = 8\<close>, the newest
  buffer index is at least \<open>COOLDOWN_FRAMES = 45\<close> above the stored index of the last
  shot, the elbow angle is defined and above \<open>RELEASE_ANGLE = 155\<close>, and the wrist is
  above the shoulder. Here \<open>s1\<close> is the detector after buffering and trimming, and \<open>ft\<close>
  the features extracted from the frame.
\<close>

theorem release_gate:
  "(lockstep s \<longrightarrow>
      (\<exists>s1 ft s' r.
         ingest ang s frame lm vis = Inr (s1, ft) \<and>
         ft = extract_features ang (side s) (stability_count s) lm vis \<and>
         stability_count s1 = f_stability ft \<and>
         update ang now s frame lm vis = Inr (s', r) \<and>
         (r \<noteq> None \<longrightarrow>
            STABILITY_REQUIRED \<le> stability_count s1 \<and>
            COOLDOWN_FRAMES \<le> int (length (frames_buffer s1)) - 1 - last_shot_frame s1 \<and>
            (\<exists>a. f_elbow_angle ft = Some a \<and> RELEASE_ANGLE < a) \<and>
            f_wrist_above_shoulder ft))) \<and>
   (dbg_lockstep d \<longrightarrow>
      (\<exists>d1 dft d' dr.
         dbg_ingest dang d dframe dlm dvis fnum ts = Inr (d1, dft) \<and>
         dft = extract_features dang (dbg_side d) (dbg_stability_count d) dlm dvis \<and>
         dbg_stability_count d1 = f_stability dft \<and>
         process_frame dang d dframe dlm dvis fnum ts = Inr (d', dr) \<and>
         (dr \<noteq> None \<longrightarrow>
            STABILITY_REQUIRED \<le> dbg_stability_count d1 \<and>
            COOLDOWN_FRAMES \<le> int (length (dbg_frames_buffer d1)) - 1 - dbg_last_shot_frame d1 \<and>
            (\<exists>a. f_elbow_angle dft = Some a \<and> RELEASE_ANGLE < a) \<and>
            f_wrist_above_shoulder dft)))"
proof (intro conjI impI)
  assume ls: "lockstep s"
  let ?s1 = "ingested ang s frame lm vis"
  let ?ft = "extract_features ang (side s) (stability_count s) lm vis"
  note i = ingest_eq[OF ls, of ang frame lm vis]
  from update_total[OF ls, of ang now frame lm vis] obtain s' r where
    u: "update ang now s frame lm vis = Inr (s', r)" by blast
  have g: "r \<noteq> None \<longrightarrow>
            STABILITY_REQUIRED \<le> stability_count ?s1 \<and>
            COOLDOWN_FRAMES \<le> int (length (frames_buffer ?s1)) - 1 - last_shot_frame ?s1 \<and>
            (\<exists>a. f_elbow_angle ?ft = Some a \<and> RELEASE_ANGLE < a) \<and>
            f_wrist_above_shoulder ?ft"
  proof
    assume "r \<noteq> None"
    then obtain k ev where "r = Some (k, ev)" by (cases r) auto
    with u update_Some[of ang now s frame lm vis s' k ev] i
    show "STABILITY_REQUIRED \<le> stability_count ?s1 \<and>
            COOLDOWN_FRAMES \<le> int (length (frames_buffer ?s1)) - 1 - last_shot_frame ?s1 \<and>
            (\<exists>a. f_elbow_angle ?ft = Some a \<and> RELEASE_ANGLE < a) \<and>
            f_wrist_above_shoulder ?ft"
      by auto
  qed
  show "\<exists>s1 ft s' r.
         ingest ang s frame lm vis = Inr (s1, ft) \<and>
         ft = extract_features ang (side s) (stability_count s) lm vis \<and>
         stability_count s1 = f_stability ft \<and>
         update ang now s frame lm vis = Inr (s', r) \<and>
         (r \<noteq> None \<longrightarrow>
            STABILITY_REQUIRED \<le> stability_count s1 \<and>
            COOLDOWN_FRAMES \<le> int (length (frames_buffer s1)) - 1 - last_shot_frame s1 \<and>
            (\<exists>a. f_elbow_angle ft = Some a \<and> RELEASE_ANGLE < a) \<and>
            f_wrist_above_shoulder ft)"
    using i u g ingested_fields(2)[of ang s frame lm vis]
    by (intro exI[of _ ?s1] exI[of _ ?ft] exI[of _ s'] exI[of _ r]) simp
next
  assume ls: "dbg_lockstep d"
  let ?s1 = "dbg_ingested dang d dframe dlm dvis fnum ts"
  let ?ft = "extract_features dang (dbg_side d) (dbg_stability_count d) dlm dvis"
  note i = dbg_ingest_eq[OF ls, of dang dframe dlm dvis fnum ts]
  from process_frame_total[OF ls, of dang dframe dlm dvis fnum ts] obtain d' r where
    u: "process_frame dang d dframe dlm dvis fnum ts = Inr (d', r)" by blast
  have g: "r \<noteq> None \<longrightarrow>
            STABILITY_REQUIRED \<le> dbg_stability_count ?s1 \<and>
            COOLDOWN_FRAMES \<le> int (length (dbg_frames_buffer ?s1)) - 1 - dbg_last_shot_frame ?s1 \<and>
            (\<exists>a. f_elbow_angle ?ft = Some a \<and> RELEASE_ANGLE < a) \<and>
            f_wrist_above_shoulder ?ft"
  proof
    assume "r \<noteq> None"
    then obtain shot where "r = Some shot" by (cases r) auto
    with u process_frame_Some[of dang d dframe dlm dvis fnum ts d' shot] i
    show "STABILITY_REQUIRED \<le> dbg_stability_count ?s1 \<and>
            COOLDOWN_FRAMES \<le> int (length (dbg_frames_buffer ?s1)) - 1 - dbg_last_shot_frame ?s1 \<and>
            (\<exists>a. f_elbow_angle ?ft = Some a \<and> RELEASE_ANGLE < a) \<and>
            f_wrist_above_shoulder ?ft"
      by auto
  qed
  show "\<exists>d1 dft d' dr.
         dbg_ingest dang d dframe dlm dvis fnum ts = Inr (d1, dft) \<and>
         dft = extract_features dang (dbg_side d) (dbg_stability_count d) dlm dvis \<and>
         dbg_stability_count d1 = f_stability dft \<and>
         process_frame dang d dframe dlm dvis fnum ts = Inr (d', dr) \<and>
         (dr \<noteq> None \<longrightarrow>
            STABILITY_REQUIRED \<le> dbg_stability_count d1 \<and>
            COOLDOWN_FRAMES \<le> int (length (dbg_frames_buffer d1)) - 1 - dbg_last_shot_frame d1 \<and>
            (\<exists>a. f_elbow_angle dft = Some a \<and> RELEASE_ANGLE < a) \<and>
            f_wrist_above_shoulder dft)"
    using i u g dbg_ingested_fields(2)[of dang d dframe dlm dvis fnum ts]
    by (intro exI[of _ ?s1] exI[of _ ?ft] exI[of _ d'] exI[of _ r]) simp
qed

theorem release_gate_witness:
  "lockstep dip_state \<and> dbg_lockstep dbg_dip_state \<and>
   (\<exists>s1 ft s' ev d1 dft d' shot.
      ingest read_angle dip_state 24 (pose 170) full_vis = Inr (s1, ft) \<and>
      update read_angle 0 dip_state 24 (pose 170) full_vis = Inr (s', Some ev) \<and>
      STABILITY_REQUIRED \<le> stability_count s1 \<and>
      COOLDOWN_FRAMES \<le> int (length (frames_buffer s1)) - 1 - last_shot_frame s1 \<and>
      (\<exists>a. f_elbow_angle ft = Some a \<and> RELEASE_ANGLE < a) \<and>
      f_wrist_above_shoulder ft \<and>
      dbg_ingest read_angle dbg_dip_state 24 (pose 170) full_vis 25 0 = Inr (d1, dft) \<and>
      process_frame read_angle dbg_dip_state 24 (pose 170) full_vis 25 0 = Inr (d', Some shot) \<and>
      STABILITY_REQUIRED \<le> dbg_stability_count d1 \<and>
      COOLDOWN_FRAMES \<le> int (length (dbg_frames_buffer d1)) - 1 - dbg_last_shot_frame d1 \<and>
      (\<exists>a. f_elbow_angle dft = Some a \<and> RELEASE_ANGLE < a) \<and>
      f_wrist_above_shoulder dft)"
proof -
  from dip_update obtain s' k ev where
    u: "update read_angle 0 dip_state 24 (pose 170) full_vis = Inr (s', Some (k, ev))"
    by blast
  from dbg_dip_update obtain d' shot where
    p: "process_frame read_angle dbg_dip_state 24 (pose 170) full_vis 25 0 = Inr (d', Some shot)"
    by blast
  note t = release_gate[of dip_state read_angle 24 "pose 170" full_vis 0
      dbg_dip_state read_angle 24 "pose 170" full_vis 25 0]
  from t dip_lockstep u obtain s1 ft where
    a: "ingest read_angle dip_state 24 (pose 170) full_vis = Inr (s1, ft)"
      "STABILITY_REQUIRED \<le> stability_count s1"
      "COOLDOWN_FRAMES \<le> int (length (frames_buffer s1)) - 1 - last_shot_frame s1"
      "\<exists>a. f_elbow_angle ft = Some a \<and> RELEASE_ANGLE < a"
      "f_wrist_above_shoulder ft"
    by auto
  from t dbg_dip_lockstep p obtain d1 dft where
    b: "dbg_ingest read_angle dbg_dip_state 24 (pose 170) full_vis 25 0 = Inr (d1, dft)"
      "STABILITY_REQUIRED \<le> dbg_stability_count d1"
      "COOLDOWN_FRAMES \<le> int (length (dbg_frames_buffer d1)) - 1 - dbg_last_shot_frame d1"
      "\<exists>a. f_elbow_angle dft = Some a \<and> RELEASE_ANGLE < a"
      "f_wrist_above_shoulder dft"
    by auto
  show ?thesis
    using dip_lockstep dbg_dip_lockstep u p a b by blast
qed

section \<open>Rejected candidates\<close>

lemma rejected_then_accepted_eval:
  "(case ingest read_angle (steady_state 9) 9 (pose 170) full_vis of
      Inr (s1, ft) \<Rightarrow>
        STABILITY_REQUIRED \<le> stability_count s1 \<and>
        COOLDOWN_FRAMES \<le> int (length (frames_buffer s1)) - 1 - last_shot_frame s1 \<and>
        f_elbow_angle ft = Some 170 \<and> f_wrist_above_shoulder ft \<and>
        length (frames_buffer s1) = 10 \<and>
        create_shot_from_release read_angle 0 s1 9 = Inr None \<and>
        last_shot_frame s1 = - 100 \<and>
        (case update read_angle 0 s1 10 (pose 170) full_vis of
           Inr (s2, Some (k, ev)) \<Rightarrow> release_idx k = 10 \<and> last_shot_frame s2 = 10
         | _ \<Rightarrow> False)
    | _ \<Rightarrow> False)"
  by code_simp

lemma eval_pairE:
  "(case x of Inr (a, b) \<Rightarrow> P a b | _ \<Rightarrow> False) \<Longrightarrow> \<exists>a b. x = Inr (a, b) \<and> P a b"
  by (auto split: sum.splits prod.splits)

lemma eval_eventE:
  "(case x of Inr (a, Some (k, ev)) \<Rightarrow> P a k ev | _ \<Rightarrow> False) \<Longrightarrow>
   \<exists>a k ev. x = Inr (a, Some (k, ev)) \<and> P a k ev"
  by (auto split: sum.splits option.splits prod.splits)

lemma rejected_then_accepted:
  "\<exists>s1 ft s2 k ev.
     ingest read_angle (steady_state 9) 9 (pose 170) full_vis = Inr (s1, ft) \<and>
     STABILITY_REQUIRED \<le> stability_count s1 \<and>
     COOLDOWN_FRAMES \<le> int (length (frames_buffer s1)) - 1 - last_shot_frame s1 \<and>
     f_elbow_angle ft = Some 170 \<and> f_wrist_above_shoulder ft \<and>
     length (frames_buffer s1) = 10 \<and>
     create_shot_from_release read_angle 0 s1 9 = Inr None \<and>
     last_shot_frame s1 = - 100 \<and>
     update read_angle 0 s1 10 (pose 170) full_vis = Inr (s2, Some (k, ev)) \<and>
     release_idx k = 10 \<and> last_shot_frame s2 = 10"
proof -
  from eval_pairE[OF rejected_then_accepted_eval] obtain s1 ft where
    i: "ingest read_angle (steady_state 9) 9 (pose 170) full_vis = Inr (s1, ft)"
    and a: "STABILITY_REQUIRED \<le> stability_count s1"
      "COOLDOWN_FRAMES \<le> int (length (frames_buffer s1)) - 1 - last_shot_frame s1"
      "f_elbow_angle ft = Some 170" "f_wrist_above_shoulder ft"
      "length (frames_buffer s1) = 10"
      "create_shot_from_release read_angle 0 s1 9 = Inr None"
      "last_shot_frame s1 = - 100"
    and b: "(case update read_angle 0 s1 10 (pose 170) full_vis of
           Inr (s2, Some (k, ev)) \<Rightarrow> release_idx k = 10 \<and> last_shot_frame s2 = 10
         | _ \<Rightarrow> False)"
    by blast
  from eval_eventE[OF b] obtain s2 k ev where
    "update read_angle 0 s1 10 (pose 170) full_vis = Inr (s2, Some (k, ev))"
    "release_idx k = 10" "last_shot_frame s2 = 10"
    by blast
  with i a show ?thesis
    by (intro exI[of _ s1] exI[of _ ft] exI[of _ s2] exI[of _ k] exI[of _ ev]) simp
qed

text \<open>
  Claim C3 (\<open>LiveShotDetector\<close>). Let \<open>s1\<close> be the detector after \<open>update\<close> has buffered
  and trimmed the frame. When \<open>_create_shot_from_release\<close> rejects the candidate
  (returns \<open>None\<close>), \<open>update\<close> returns \<open>None\<close> and leaves the detector exactly at \<open>s1\<close>:
  \<open>last_shot_frame\<close> and every other field are what buffering alone made them. In
  general a call that returns \<open>None\<close> ends in \<open>s1\<close>, a call that returns an event ends
  in \<open>s1\<close> with \<open>last_shot_frame\<close> set to the newest index, and so \<open>last_shot_frame\<close>
  differs from its value in \<open>s1\<close> only when an event was returned.
\<close>

theorem rejection_keeps_cooldown:
  "(ingest ang s frame lm vis = Inr (s1, ft) \<and>
    create_shot_from_release ang now s1 (int (length (frames_buffer s1)) - 1) = Inr None \<longrightarrow>
      update ang now s frame lm vis = Inr (s1, None)) \<and>
   (ingest ang s frame lm vis = Inr (s1, ft) \<and>
    update ang now s frame lm vis = Inr (s', r) \<longrightarrow>
      (r = None \<longrightarrow> s' = s1) \<and>
      (r \<noteq> None \<longrightarrow> s' = s1\<lparr> last_shot_frame := int (length (frames_buffer s1)) - 1 \<rparr>) \<and>
      (last_shot_frame s' \<noteq> last_shot_frame s1 \<longrightarrow> r \<noteq> None))"
proof (intro conjI impI)
  assume a: "ingest ang s frame lm vis = Inr (s1, ft) \<and>
    create_shot_from_release ang now s1 (int (length (frames_buffer s1)) - 1) = Inr None"
  then have "detect ang now s1 ft = Inr (s1, None)"
    by (simp add: detect_def Let_def bindE_Inr)
  with a show "update ang now s frame lm vis = Inr (s1, None)"
    by (simp add: update_def bindE_Inr)
next
  assume a: "ingest ang s frame lm vis = Inr (s1, ft) \<and>
    update ang now s frame lm vis = Inr (s', r)"
  then have d: "detect ang now s1 ft = Inr (s', r)"
    by (auto simp: update_def bindE_Inr_iff)
  note c = detect_cases[OF d]
  { assume "r = None" with c show "s' = s1" by auto }
  { assume "r \<noteq> None" with c
    show "s' = s1\<lparr> last_shot_frame := int (length (frames_buffer s1)) - 1 \<rparr>" by auto }
  { assume "last_shot_frame s' \<noteq> last_shot_frame s1" with c show "r \<noteq> None" by auto }
qed

theorem rejection_keeps_cooldown_witness:
  "\<exists>s1 ft s2 k ev.
     ingest read_angle (steady_state 9) 9 (pose 170) full_vis = Inr (s1, ft) \<and>
     STABILITY_REQUIRED \<le> stability_count s1 \<and>
     COOLDOWN_FRAMES \<le> int (length (frames_buffer s1)) - 1 - last_shot_frame s1 \<and>
     f_elbow_angle ft = Some 170 \<and> f_wrist_above_shoulder ft \<and>
     create_shot_from_release read_angle 0 s1 9 = Inr None \<and>
     update read_angle 0 (steady_state 9) 9 (pose 170) full_vis = Inr (s1, None) \<and>
     last_shot_frame s1 = - 100 \<and>
     update read_angle 0 s1 10 (pose 170) full_vis = Inr (s2, Some (k, ev)) \<and>
     release_idx k = 10 \<and> last_shot_frame s2 = 10"
proof -
  from rejected_then_accepted obtain s1 ft s2 k ev where
    i: "ingest read_angle (steady_state 9) 9 (pose 170) full_vis = Inr (s1, ft)"
    and g: "STABILITY_REQUIRED \<le> stability_count s1"
      "COOLDOWN_FRAMES \<le> int (length (frames_buffer s1)) - 1 - last_shot_frame s1"
      "f_elbow_angle ft = Some 170" "f_wrist_above_shoulder ft"
    and n: "length (frames_buffer s1) = 10"
    and c: "create_shot_from_release read_angle 0 s1 9 = Inr None"
    and l: "last_shot_frame s1 = - 100"
    and u: "update read_angle 0 s1 10 (pose 170) full_vis = Inr (s2, Some (k, ev))"
    and k: "release_idx k = 10" "last_shot_frame s2 = 10"
    by blast
  have R: "int (length (frames_buffer s1)) - 1 = 9" using n by simp
  note t = rejection_keeps_cooldown[where ang = read_angle and s = "steady_state 9" and frame = 9
      and lm = "pose 170" and vis = full_vis and ?s1.0 = s1 and ft = ft and now = 0
      and s' = s1 and r = None, THEN conjunct1, unfolded R]
  have r: "update read_angle 0 (steady_state 9) 9 (pose 170) full_vis = Inr (s1, None)"
    using t i c by blast
  show ?thesis
    using i g c r l u k
    by (intro exI[of _ s1] exI[of _ ft] exI[of _ s2] exI[of _ k] exI[of _ ev]) simp
qed

section \<open>The load index\<close>

lemma scan_load:
  assumes "sorted_wrt (<) w"
  shows "(if \<exists>i\<in>set w. truthy (f i)
          then earliest_min truthy f w (fst (scan f w (R, Infinity))) \<and>
               snd (scan f w (R, Infinity)) = Angle (the (f (fst (scan f w (R, Infinity)))))
          else scan f w (R, Infinity) = (R, Infinity))"
  using scan_some[OF assms, of f R] scan_none[of w f "(R, Infinity)"] by auto

lemma load_loop_in_range:
  "load_loop angles w acc = Inr r \<Longrightarrow> \<forall>i\<in>set w. 0 \<le> i \<Longrightarrow>
   \<forall>i\<in>set w. 0 \<le> i \<and> i < int (length angles)"
proof (induction w arbitrary: acc)
  case Nil
  then show ?case by simp
next
  case (Cons i w)
  from Cons.prems have i: "0 \<le> i" and w: "\<forall>i\<in>set w. 0 \<le> i" by auto
  have il: "i < int (length angles)"
  proof (rule ccontr)
    assume "\<not> i < int (length angles)"
    with i have "py_index angles i = Inl IndexError" by (simp add: py_index_def)
    with Cons.prems(1) show False by simp
  qed
  with Cons.prems(1) i have "load_loop angles w (load_step i (angles ! nat i) acc) = Inr r"
    by (simp add: py_index_def)
  from Cons.IH[OF this w] i il show ?case by auto
qed

lemma dbg_load_loop_scan_skip:
  "\<forall>i\<in>set w. 0 \<le> i \<Longrightarrow>
   dbg_load_loop mb w acc =
     Inr (scan (\<lambda>i. if i < int (length mb) then elbow_angle (mb ! nat i) else None) w acc)"
proof (induction w arbitrary: acc)
  case Nil
  then show ?case by (simp add: scan_def)
next
  case (Cons i w)
  then show ?case by (simp add: scan_def py_index_def load_step_def truthy_def)
qed

lemma earliest_min_cong:
  "\<forall>i\<in>set w. f i = g i \<Longrightarrow> earliest_min ok f w L = earliest_min ok g w L"
  by (auto simp: earliest_min_def)

lemma load_loop_window:
  assumes "0 \<le> R" "R \<le> int (length angles)"
  shows "\<exists>L m. load_loop angles (window R) (R, Infinity) = Inr (L, m) \<and>
     (if \<exists>i\<in>set (window R). truthy (angles ! nat i)
      then earliest_min truthy (\<lambda>i. angles ! nat i) (window R) L \<and> m = Angle (the (angles ! nat L))
      else L = R \<and> m = Infinity)"
proof -
  let ?f = "\<lambda>i. angles ! nat i"
  have "\<forall>i\<in>set (window R). 0 \<le> i \<and> i < int (length angles)"
    using assms by (auto simp: set_window)
  from load_loop_scan[OF this]
  have l: "load_loop angles (window R) (R, Infinity) = Inr (scan ?f (window R) (R, Infinity))" .
  obtain L m where s: "scan ?f (window R) (R, Infinity) = (L, m)"
    by (cases "scan ?f (window R) (R, Infinity)")
  from scan_load[OF window_sorted[of R], where f = ?f and R = R] show ?thesis
    unfolding l s by (intro exI[of _ L] exI[of _ m]) (simp split: if_splits)
qed

lemma dbg_load_loop_window:
  assumes "0 \<le> R" "R \<le> int (length mb)"
  shows "\<exists>L m. dbg_load_loop mb (window R) (R, Infinity) = Inr (L, m) \<and>
     (if \<exists>i\<in>set (window R). truthy (elbow_angle (mb ! nat i))
      then earliest_min truthy (\<lambda>i. elbow_angle (mb ! nat i)) (window R) L \<and>
           m = Angle (the (elbow_angle (mb ! nat L)))
      else L = R \<and> m = Infinity)"
proof -
  let ?f = "\<lambda>i. elbow_angle (mb ! nat i)"
  have "\<forall>i\<in>set (window R). 0 \<le> i \<and> i < int (length mb)"
    using assms by (auto simp: set_window)
  from dbg_load_loop_scan[OF this]
  have l: "dbg_load_loop mb (window R) (R, Infinity) = Inr (scan ?f (window R) (R, Infinity))" .
  obtain L m where s: "scan ?f (window R) (R, Infinity) = (L, m)"
    by (cases "scan ?f (window R) (R, Infinity)")
  from scan_load[OF window_sorted[of R], where f = ?f and R = R] show ?thesis
    unfolding l s by (intro exI[of _ L] exI[of _ m]) (simp split: if_splits)
qed

lemma found_load:
  assumes "0 \<le> R" "R \<le> n"
    and "\<exists>L' m'. loop = Inr (L', m') \<and>
     (if \<exists>i\<in>set (window R). truthy (f i)
      then earliest_min truthy f (window R) L' \<and> m' = Angle (the (f L'))
      else L' = R \<and> m' = Infinity)"
    and "loop = Inr (L, m)" and "L \<in> set (window R)"
  shows "earliest_min truthy f (window R) L \<and> m = Angle (the (f L))"
proof -
  from assms(5) have "L \<noteq> R" by (simp add: set_window)
  with assms(3,4) show ?thesis by (auto split: if_splits)
qed

lemma update_Some_load:
  assumes "update ang now s frame lm vis = Inr (s', Some (k, ev))"
  shows "earliest_min truthy (\<lambda>i. elbow_angles s' ! nat i) (window (release_idx k)) (load_idx k) \<and>
         elbow_angle_load ev = Angle (the (elbow_angles s' ! nat (load_idx k)))"
proof -
  from update_Some[OF assms] obtain s1 L m where
    s': "s' = s1\<lparr> last_shot_frame := int (length (frames_buffer s1)) - 1 \<rparr>"
    and l: "load_loop (elbow_angles s1) (window (int (length (frames_buffer s1)) - 1))
           (int (length (frames_buffer s1)) - 1, Infinity) = Inr (L, m)"
    and L: "0 \<le> L" "L + MIN_SHOT_FRAMES \<le> int (length (frames_buffer s1)) - 1"
    and Lw: "L \<in> set (window (int (length (frames_buffer s1)) - 1))"
    and k: "k = sample_key_frames (int (length (frames_buffer s1))) L (int (length (frames_buffer s1)) - 1)"
    and m: "elbow_angle_load ev = m"
    by blast
  let ?R = "int (length (frames_buffer s1)) - 1"
  have kf: "load_idx k = L" "release_idx k = ?R"
    unfolding k by (rule sampled_newest[OF L])+
  have ea: "elbow_angles s' = elbow_angles s1" by (simp add: s')
  have R0: "0 \<le> ?R" using L unfolding MIN_SHOT_FRAMES_def by linarith
  have "\<forall>i\<in>set (window ?R). 0 \<le> i" by (simp add: set_window)
  from load_loop_in_range[OF l this] Lw
  have inr: "\<forall>i\<in>set (window ?R). i < int (length (elbow_angles s1))" by blast
  have "?R - 1 \<in> set (window ?R)" using Lw by (auto simp: set_window)
  with inr have "?R - 1 < int (length (elbow_angles s1))" by blast
  then have "?R \<le> int (length (elbow_angles s1))" by linarith
  from found_load[OF R0 this load_loop_window[OF R0 this] l Lw] m
  show ?thesis
    unfolding kf ea by simp
qed

lemma process_frame_Some_load:
  assumes "process_frame ang s frame lm vis fnum ts = Inr (s', Some shot)"
    and ls: "dbg_lockstep s"
  shows "earliest_min truthy (\<lambda>i. elbow_angle (metrics_buffer s' ! nat i))
           (window (release_idx shot)) (load_idx shot) \<and>
         load_angle shot = Angle (the (elbow_angle (metrics_buffer s' ! nat (load_idx shot))))"
proof -
  from process_frame_Some[OF assms(1)] obtain s1 ft L m where
    i: "dbg_ingest ang s frame lm vis fnum ts = Inr (s1, ft)"
    and s': "s' = s1\<lparr> shot_count := shot_count s1 + 1, shots := shots s1 @ [shot],
                   dbg_last_shot_frame := int (length (dbg_frames_buffer s1)) - 1 \<rparr>"
    and l: "dbg_load_loop (metrics_buffer s1) (window (int (length (dbg_frames_buffer s1)) - 1))
           (int (length (dbg_frames_buffer s1)) - 1, Infinity) = Inr (L, m)"
    and L: "0 \<le> L" "L + MIN_SHOT_FRAMES \<le> int (length (dbg_frames_buffer s1)) - 1"
    and Lw: "L \<in> set (window (int (length (dbg_frames_buffer s1)) - 1))"
    and k: "key_frames.truncate shot =
          sample_key_frames (int (length (dbg_frames_buffer s1))) L (int (length (dbg_frames_buffer s1)) - 1)"
    and m: "load_angle shot = m"
    by blast
  let ?R = "int (length (dbg_frames_buffer s1)) - 1"
  have "load_idx (key_frames.truncate shot) = L" "release_idx (key_frames.truncate shot) = ?R"
    unfolding k by (rule sampled_newest[OF L])+
  then have kf: "load_idx shot = L" "release_idx shot = ?R"
    by (simp_all add: truncate_fields)
  have mb: "metrics_buffer s' = metrics_buffer s1" by (simp add: s')
  have R0: "0 \<le> ?R" using L unfolding MIN_SHOT_FRAMES_def by linarith
  from i dbg_ingest_eq[OF ls, of ang frame lm vis fnum ts]
  have "s1 = dbg_ingested ang s frame lm vis fnum ts" by simp
  then have "dbg_lockstep s1" using dbg_ingested_lockstep[OF ls] by simp
  then have "?R \<le> int (length (metrics_buffer s1))"
    by (simp add: dbg_lockstep_def)
  from found_load[OF R0 this dbg_load_loop_window[OF R0 this] l Lw] m
  show ?thesis
    unfolding kf mb by simp
qed

subsection \<open>The angle function never returns 0\<close>

lemma dot_le_norms:
  fixes a b c d :: real
  shows "a * c + b * d \<le> sqrt (a\<^sup>2 + b\<^sup>2) * sqrt (c\<^sup>2 + d\<^sup>2)"
proof -
  have "(a * c + b * d)\<^sup>2 + (a * d - b * c)\<^sup>2 = (a\<^sup>2 + b\<^sup>2) * (c\<^sup>2 + d\<^sup>2)"
    by (simp add: power2_eq_square algebra_simps)
  then have "(a * c + b * d)\<^sup>2 \<le> (a\<^sup>2 + b\<^sup>2) * (c\<^sup>2 + d\<^sup>2)"
    by (smt (verit) zero_le_power2)
  then have "sqrt ((a * c + b * d)\<^sup>2) \<le> sqrt ((a\<^sup>2 + b\<^sup>2) * (c\<^sup>2 + d\<^sup>2))"
    by (rule real_sqrt_le_mono)
  then have "\<bar>a * c + b * d\<bar> \<le> sqrt (a\<^sup>2 + b\<^sup>2) * sqrt (c\<^sup>2 + d\<^sup>2)"
    by (simp add: real_sqrt_mult)
  then show ?thesis by linarith
qed

lemma calculate_angle_pos: "0 < calculate_angle p1 p2 p3"
proof -
  let ?a = "fst p1 - fst p2" and ?b = "py_y p1 - py_y p2"
  let ?c = "fst p3 - fst p2" and ?d = "py_y p3 - py_y p2"
  let ?n = "sqrt (?a\<^sup>2 + ?b\<^sup>2) * sqrt (?c\<^sup>2 + ?d\<^sup>2)"
  let ?cos = "(?a * ?c + ?b * ?d) / (?n + 1 / 10 ^ 6)"
  have n0: "0 \<le> ?n" by simp
  have eps: "(0::real) < 1 / 10 ^ 6" by simp
  from n0 eps have den: "0 < ?n + 1 / 10 ^ 6" by (rule add_nonneg_pos)
  have "?a * ?c + ?b * ?d < ?n + 1 / 10 ^ 6"
    using dot_le_norms[of ?a ?c ?b ?d] eps by linarith
  then have lt: "?cos < 1" using den by (simp add: divide_less_eq_1_pos)
  let ?y = "min (max ?cos (- 1)) 1"
  have y: "- 1 \<le> ?y" "?y < 1" using lt by simp_all
  have "arccos 1 < arccos ?y"
    by (rule arccos_less_arccos[OF y(1) y(2)]) simp
  then have "0 < arccos ?y" by simp
  then have "0 < arccos ?y * 180 / pi" by simp
  then show ?thesis by (simp add: calculate_angle_def Let_def)
qed

subsection \<open>Buffers without an angle of 0\<close>

lemma earliest_min_ok_cong:
  "\<forall>i\<in>set w. ok (f i) = ok' (f i) \<Longrightarrow> earliest_min ok f w L = earliest_min ok' f w L"
  by (auto simp: earliest_min_def)

lemma truthy_defined: "a \<noteq> Some 0 \<Longrightarrow> truthy a = (a \<noteq> None)"
  by (cases a) (simp_all add: truthy_def)

lemma defined_load:
  assumes zf: "\<forall>i\<in>set w. f i \<noteq> Some 0"
  shows "(\<exists>i\<in>set w. truthy (f i)) = (\<exists>i\<in>set w. f i \<noteq> None)"
    and "earliest_min truthy f w L = earliest_min (\<lambda>a. a \<noteq> None) f w L"
proof -
  have t: "\<forall>i\<in>set w. truthy (f i) = (f i \<noteq> None)"
    using zf by (simp add: truthy_defined)
  then show "(\<exists>i\<in>set w. truthy (f i)) = (\<exists>i\<in>set w. f i \<noteq> None)" by simp
  show "earliest_min truthy f w L = earliest_min (\<lambda>a. a \<noteq> None) f w L"
    by (rule earliest_min_ok_cong) (use t in simp)
qed

lemma zero_free_nth: "zero_free xs \<Longrightarrow> i < length xs \<Longrightarrow> xs ! i \<noteq> Some 0"
  by (simp add: zero_free_def list_all_length)

lemma drop_snoc_older:
  assumes "k \<le> length xs" and "int i < int (length (drop k (xs @ [x]))) - 1"
  shows "drop k (xs @ [x]) ! i = xs ! (k + i) \<and> k + i < length xs"
proof -
  have i: "k + i < length xs" using assms by simp
  have "drop k (xs @ [x]) ! i = (xs @ [x]) ! (k + i)"
    using assms by (intro nth_drop) simp
  with i show ?thesis by (simp add: nth_append)
qed

lemma ingested_window_zero_free:
  assumes ls: "lockstep s" and zf: "zero_free (elbow_angles s)"
  shows "\<forall>i\<in>set (window (int (length (frames_buffer (ingested ang s frame lm vis))) - 1)).
           elbow_angles (ingested ang s frame lm vis) ! nat i \<noteq> Some 0"
proof
  let ?s1 = "ingested ang s frame lm vis"
  let ?k = "excess max_buffer (frames_buffer s @ [frame])"
  let ?a = "f_elbow_angle (extract_features ang (side s) (stability_count s) lm vis)"
  fix i assume "i \<in> set (window (int (length (frames_buffer ?s1)) - 1))"
  then have i: "0 \<le> i" "i < int (length (frames_buffer ?s1)) - 1"
    by (simp_all add: set_window)
  have k: "?k \<le> length (elbow_angles s)"
    using ls by (simp add: excess_def lockstep_def max_buffer_def)
  have ea: "elbow_angles ?s1 = drop ?k (elbow_angles s @ [?a])"
    by (simp add: ingested_def Let_def)
  have len: "length (frames_buffer ?s1) = length (drop ?k (elbow_angles s @ [?a]))"
    using ls by (simp add: ingested_def Let_def lockstep_def)
  have "int (nat i) < int (length (drop ?k (elbow_angles s @ [?a]))) - 1"
    using i len by simp
  from drop_snoc_older[OF k this]
  have e: "drop ?k (elbow_angles s @ [?a]) ! nat i = elbow_angles s ! (?k + nat i)"
    and b: "?k + nat i < length (elbow_angles s)"
    by blast+
  from zero_free_nth[OF zf b]
  show "elbow_angles ?s1 ! nat i \<noteq> Some 0" unfolding ea e .
qed

lemma dbg_ingested_window_zero_free:
  assumes ls: "dbg_lockstep s" and zf: "zero_free (map elbow_angle (metrics_buffer s))"
  shows "\<forall>i\<in>set (window (int (length (dbg_frames_buffer (dbg_ingested ang s frame lm vis fnum ts))) - 1)).
           elbow_angle (metrics_buffer (dbg_ingested ang s frame lm vis fnum ts) ! nat i) \<noteq> Some 0"
proof
  let ?s1 = "dbg_ingested ang s frame lm vis fnum ts"
  let ?k = "excess dbg_max_buffer (dbg_frames_buffer s @ [frame])"
  fix i assume "i \<in> set (window (int (length (dbg_frames_buffer ?s1)) - 1))"
  then have i: "0 \<le> i" "i < int (length (dbg_frames_buffer ?s1)) - 1"
    by (simp_all add: set_window)
  have k: "?k \<le> length (metrics_buffer s)"
    using ls by (simp add: excess_def dbg_lockstep_def dbg_max_buffer_def)
  obtain m where mb: "metrics_buffer ?s1 = drop ?k (metrics_buffer s @ [m])"
    by (simp add: dbg_ingested_def Let_def)
  have len: "length (dbg_frames_buffer ?s1) = length (drop ?k (metrics_buffer s @ [m]))"
    using ls by (simp add: dbg_ingested_def Let_def dbg_lockstep_def)
  have "int (nat i) < int (length (drop ?k (metrics_buffer s @ [m]))) - 1"
    using i len by simp
  from drop_snoc_older[OF k this]
  have e: "drop ?k (metrics_buffer s @ [m]) ! nat i = metrics_buffer s ! (?k + nat i)"
    and b: "?k + nat i < length (metrics_buffer s)"
    by blast+
  from zero_free_nth[OF zf, of "?k + nat i"] b
  have "elbow_angle (metrics_buffer s ! (?k + nat i)) \<noteq> Some 0" by simp
  then show "elbow_angle (metrics_buffer ?s1 ! nat i) \<noteq> Some 0"
    unfolding mb e .
qed

lemma extract_angle_nonzero:
  "\<forall>p q r. ang p q r \<noteq> 0 \<Longrightarrow> f_elbow_angle (extract_features ang sd st lm vis) \<noteq> Some 0"
  by (simp add: extract_features_def split: option.splits)

lemma zero_free_drop_snoc:
  "zero_free xs \<Longrightarrow> a \<noteq> Some 0 \<Longrightarrow> zero_free (drop k (xs @ [a]))"
proof -
  assume "zero_free xs" "a \<noteq> Some 0"
  then have "\<forall>x\<in>set (xs @ [a]). x \<noteq> Some 0"
    by (auto simp: zero_free_def list_all_iff)
  then have "\<forall>x\<in>set (drop k (xs @ [a])). x \<noteq> Some 0"
    using set_drop_subset[of k "xs @ [a]"] by blast
  then show ?thesis by (simp add: zero_free_def list_all_iff)
qed

lemma update_zero_free:
  assumes nz: "\<forall>p q r. ang p q r \<noteq> 0" and ls: "lockstep s"
    and zf: "zero_free (elbow_angles s)"
    and u: "update ang now s frame lm vis = Inr (s', r)"
  shows "zero_free (elbow_angles s')"
proof -
  let ?s1 = "ingested ang s frame lm vis"
  from update_cases[OF u] ingest_eq[OF ls, of ang frame lm vis] obtain ft where
    d: "detect ang now ?s1 ft = Inr (s', r)" by auto
  from detect_cases[OF d] have "elbow_angles s' = elbow_angles ?s1" by auto
  also have "\<dots> = drop (excess max_buffer (frames_buffer s @ [frame]))
      (elbow_angles s @ [f_elbow_angle (extract_features ang (side s) (stability_count s) lm vis)])"
    by (simp add: ingested_def Let_def)
  finally show ?thesis
    using zero_free_drop_snoc[OF zf extract_angle_nonzero[OF nz]] by simp
qed

lemma run_zero_free_from:
  assumes nz: "\<forall>p q r. ang p q r \<noteq> 0"
  shows "lockstep s0 \<Longrightarrow> zero_free (elbow_angles s0) \<Longrightarrow> run ang s0 xs = Inr (s, rs) \<Longrightarrow>
         lockstep s \<and> zero_free (elbow_angles s)"
proof (induction xs arbitrary: s0 rs)
  case Nil
  then show ?case by simp
next
  case (Cons x xs)
  from Cons.prems(3) obtain s1 r rs' where
    u: "update ang (fi_now x) s0 (fi_frame x) (fi_landmarks x) (fi_visibility x) = Inr (s1, r)"
    and q: "run ang s1 xs = Inr (s, rs')"
    by (auto split: sum.splits prod.splits)
  from Cons.IH[OF update_lockstep[OF Cons.prems(1) u]
      update_zero_free[OF nz Cons.prems(1,2) u] q]
  show ?case .
qed

lemma run_zero_free:
  assumes "\<forall>p q r. ang p q r \<noteq> 0" and "run ang (init sd) xs = Inr (s, rs)"
  shows "lockstep s \<and> zero_free (elbow_angles s)"
proof -
  have "zero_free (elbow_angles (init sd :: 'a LiveShotDetector))"
    by (simp add: zero_free_def init_def)
  from run_zero_free_from[OF assms(1) lockstep_init this assms(2)] show ?thesis .
qed

lemma process_frame_zero_free:
  assumes nz: "\<forall>p q r. ang p q r \<noteq> 0" and ls: "dbg_lockstep s"
    and zf: "zero_free (map elbow_angle (metrics_buffer s))"
    and u: "process_frame ang s frame lm vis fnum ts = Inr (s', r)"
  shows "zero_free (map elbow_angle (metrics_buffer s'))"
proof -
  let ?s1 = "dbg_ingested ang s frame lm vis fnum ts"
  let ?a = "f_elbow_angle (extract_features ang (dbg_side s) (dbg_stability_count s) lm vis)"
  from process_frame_cases[OF u] dbg_ingest_eq[OF ls, of ang frame lm vis fnum ts] obtain ft where
    d: "dbg_detect ?s1 ft = Inr (s', r)" by auto
  have mb: "metrics_buffer s' = metrics_buffer ?s1"
  proof (cases r)
    case None
    with dbg_detect_cases[OF d] show ?thesis by auto
  next
    case (Some shot)
    with dbg_detect_cases[OF d] obtain s2 where
      c: "create_shot ?s1 (int (length (dbg_frames_buffer ?s1)) - 1) (the (f_elbow_angle ft))
            = Inr (s2, Some shot)"
      and s': "s' = s2\<lparr> dbg_last_shot_frame := int (length (dbg_frames_buffer ?s1)) - 1 \<rparr>"
      by auto
    from create_shot_Some[OF c] have "metrics_buffer s2 = metrics_buffer ?s1" by auto
    with s' show ?thesis by simp
  qed
  obtain m where mb1: "metrics_buffer ?s1 =
      drop (excess dbg_max_buffer (dbg_frames_buffer s @ [frame])) (metrics_buffer s @ [m])"
    and ma: "elbow_angle m = ?a"
    by (simp add: dbg_ingested_def Let_def)
  have "map elbow_angle (metrics_buffer ?s1) =
      drop (excess dbg_max_buffer (dbg_frames_buffer s @ [frame]))
        (map elbow_angle (metrics_buffer s) @ [?a])"
    unfolding mb1 by (simp only: drop_map[symmetric] map_append list.map ma)
  then show ?thesis
    unfolding mb using zero_free_drop_snoc[OF zf extract_angle_nonzero[OF nz]] by simp
qed

lemma dbg_run_zero_free_from:
  assumes nz: "\<forall>p q r. ang p q r \<noteq> 0"
  shows "dbg_lockstep s0 \<Longrightarrow> zero_free (map elbow_angle (metrics_buffer s0)) \<Longrightarrow>
         dbg_run ang s0 xs = Inr (s, rs) \<Longrightarrow>
         dbg_lockstep s \<and> zero_free (map elbow_angle (metrics_buffer s))"
proof (induction xs arbitrary: s0 rs)
  case Nil
  then show ?case by simp
next
  case (Cons x xs)
  from Cons.prems(3) obtain s1 r rs' where
    u: "process_frame ang s0 (di_frame x) (di_landmarks x) (di_visibility x)
          (di_frame_num x) (di_timestamp_ms x) = Inr (s1, r)"
    and q: "dbg_run ang s1 xs = Inr (s, rs')"
    by (auto split: sum.splits prod.splits)
  from Cons.IH[OF process_frame_lockstep[OF Cons.prems(1) u]
      process_frame_zero_free[OF nz Cons.prems(1,2) u] q]
  show ?case .
qed

lemma dbg_run_zero_free:
  assumes "\<forall>p q r. ang p q r \<noteq> 0" and "dbg_run ang (dbg_init sd) xs = Inr (s, rs)"
  shows "dbg_lockstep s \<and> zero_free (map elbow_angle (metrics_buffer s))"
proof -
  have "zero_free (map elbow_angle (metrics_buffer (dbg_init sd :: 'a ShotDetectionDebugger)))"
    by (simp add: zero_free_def dbg_init_def)
  from dbg_run_zero_free_from[OF assms(1) dbg_lockstep_init this assms(2)] show ?thesis .
qed

text \<open>With \<open>_calculate_angle\<close> in exact arithmetic no buffered angle is 0.\<close>

lemma calculate_angle_buffers_zero_free:
  "run calculate_angle (init sd) xs = Inr (s, rs) \<Longrightarrow> zero_free (elbow_angles s)"
  "dbg_run calculate_angle (dbg_init sd) dxs = Inr (d, drs) \<Longrightarrow>
     zero_free (map elbow_angle (metrics_buffer d))"
proof -
  have nz: "\<forall>p q r. calculate_angle p q r \<noteq> 0"
    using calculate_angle_pos by (metis less_irrefl)
  show "run calculate_angle (init sd) xs = Inr (s, rs) \<Longrightarrow> zero_free (elbow_angles s)"
    using run_zero_free[OF nz] by blast
  show "dbg_run calculate_angle (dbg_init sd) dxs = Inr (d, drs) \<Longrightarrow>
     zero_free (map elbow_angle (metrics_buffer d))"
    using dbg_run_zero_free[OF nz] by blast
qed

subsection \<open>The minimum over the defined angles\<close>

lemma load_loop_window_defined:
  assumes "0 \<le> R" "R \<le> int (length angles)"
    and zf: "\<forall>i\<in>set (window R). angles ! nat i \<noteq> Some 0"
  shows "\<exists>L m. load_loop angles (window R) (R, Infinity) = Inr (L, m) \<and>
     (if \<exists>i\<in>set (window R). angles ! nat i \<noteq> None
      then earliest_min (\<lambda>a. a \<noteq> None) (\<lambda>i. angles ! nat i) (window R) L \<and>
           m = Angle (the (angles ! nat L))
      else L = R \<and> m = Infinity)"
  using load_loop_window[OF assms(1,2)]
  unfolding defined_load[of "window R" "\<lambda>i. angles ! nat i", OF zf] .

lemma dbg_load_loop_window_defined:
  assumes "0 \<le> R" "R \<le> int (length mb)"
    and zf: "\<forall>i\<in>set (window R). elbow_angle (mb ! nat i) \<noteq> Some 0"
  shows "\<exists>L m. dbg_load_loop mb (window R) (R, Infinity) = Inr (L, m) \<and>
     (if \<exists>i\<in>set (window R). elbow_angle (mb ! nat i) \<noteq> None
      then earliest_min (\<lambda>a. a \<noteq> None) (\<lambda>i. elbow_angle (mb ! nat i)) (window R) L \<and>
           m = Angle (the (elbow_angle (mb ! nat L)))
      else L = R \<and> m = Infinity)"
  using dbg_load_loop_window[OF assms(1,2)]
  unfolding defined_load[of "window R" "\<lambda>i. elbow_angle (mb ! nat i)", OF zf] .

lemma update_Some_load_defined:
  assumes ls: "lockstep s" and zf: "zero_free (elbow_angles s)"
    and u: "update ang now s frame lm vis = Inr (s', Some (k, ev))"
  shows "earliest_min (\<lambda>a. a \<noteq> None) (\<lambda>i. elbow_angles s' ! nat i)
           (window (release_idx k)) (load_idx k) \<and>
         elbow_angle_load ev = Angle (the (elbow_angles s' ! nat (load_idx k)))"
proof -
  let ?s1 = "ingested ang s frame lm vis"
  from update_Some[OF u] ingest_eq[OF ls, of ang frame lm vis] have
    s': "s' = ?s1\<lparr> last_shot_frame := int (length (frames_buffer ?s1)) - 1 \<rparr>"
    by auto
  from update_Some_keys[OF u] obtain L where L: "0 \<le> L"
    "L + MIN_SHOT_FRAMES \<le> int (length (frames_buffer s')) - 1"
    and k: "k = sample_key_frames (int (length (frames_buffer s'))) L (int (length (frames_buffer s')) - 1)"
    by blast
  have r: "release_idx k = int (length (frames_buffer ?s1)) - 1"
    unfolding k sampled_newest[OF L] by (simp add: s')
  have ea: "elbow_angles s' = elbow_angles ?s1" by (simp add: s')
  have "\<forall>i\<in>set (window (release_idx k)). elbow_angles s' ! nat i \<noteq> Some 0"
    unfolding r ea by (rule ingested_window_zero_free[OF ls zf])
  from defined_load(2)[of "window (release_idx k)" "\<lambda>i. elbow_angles s' ! nat i", OF this]
    update_Some_load[OF u]
  show ?thesis by simp
qed

lemma process_frame_Some_load_defined:
  assumes ls: "dbg_lockstep s" and zf: "zero_free (map elbow_angle (metrics_buffer s))"
    and u: "process_frame ang s frame lm vis fnum ts = Inr (s', Some shot)"
  shows "earliest_min (\<lambda>a. a \<noteq> None) (\<lambda>i. elbow_angle (metrics_buffer s' ! nat i))
           (window (release_idx shot)) (load_idx shot) \<and>
         load_angle shot = Angle (the (elbow_angle (metrics_buffer s' ! nat (load_idx shot))))"
proof -
  let ?s1 = "dbg_ingested ang s frame lm vis fnum ts"
  from process_frame_Some[OF u] dbg_ingest_eq[OF ls, of ang frame lm vis fnum ts] have
    s': "s' = ?s1\<lparr> shot_count := shot_count ?s1 + 1, shots := shots ?s1 @ [shot],
                   dbg_last_shot_frame := int (length (dbg_frames_buffer ?s1)) - 1 \<rparr>"
    by auto
  from process_frame_Some_keys[OF u] obtain L where L: "0 \<le> L"
    "L + MIN_SHOT_FRAMES \<le> int (length (dbg_frames_buffer s')) - 1"
    and k: "key_frames.truncate shot =
      sample_key_frames (int (length (dbg_frames_buffer s'))) L (int (length (dbg_frames_buffer s')) - 1)"
    by blast
  have "release_idx (key_frames.truncate shot) = int (length (dbg_frames_buffer s')) - 1"
    unfolding k by (rule sampled_newest[OF L])
  then have r: "release_idx shot = int (length (dbg_frames_buffer ?s1)) - 1"
    by (simp add: truncate_fields s')
  have mb: "metrics_buffer s' = metrics_buffer ?s1" by (simp add: s')
  have "\<forall>i\<in>set (window (release_idx shot)). elbow_angle (metrics_buffer s' ! nat i) \<noteq> Some 0"
    unfolding r mb by (rule dbg_ingested_window_zero_free[OF ls zf])
  from defined_load(2)[of "window (release_idx shot)"
      "\<lambda>i. elbow_angle (metrics_buffer s' ! nat i)", OF this]
    process_frame_Some_load[OF u ls]
  show ?thesis by simp
qed

text \<open>
  Claim C4. The buffered angles are those that \<open>_calculate_angle\<close> returned, and none
  of them is exactly 0: the cosine is divided by the product of the norms plus 1e-6
  and so stays below 1 (\<open>calculate_angle_pos\<close>, \<open>calculate_angle_buffers_zero_free\<close>).
  On such buffers, for a release index \<open>R\<close> inside the buffer, the backward search of
  either detector returns as load index the index of the minimum defined angle among
  the frames of \<open>window R\<close>, from \<open>max(0, R - 60)\<close> up to but not including \<open>R\<close>; among
  equal minima it is the earliest; frames whose angle is \<open>None\<close> are skipped. (If the
  window has no defined angle the load index stays \<open>R\<close>.) The load of every emitted
  event is found this way.
\<close>

theorem load_is_earliest_minimum:
  "(0 \<le> R \<and> R \<le> int (length angles) \<and> (\<forall>i\<in>set (window R). angles ! nat i \<noteq> Some 0) \<longrightarrow>
      (\<exists>L m. load_loop angles (window R) (R, Infinity) = Inr (L, m) \<and>
         (if \<exists>i\<in>set (window R). angles ! nat i \<noteq> None
          then earliest_min (\<lambda>a. a \<noteq> None) (\<lambda>i. angles ! nat i) (window R) L \<and>
               m = Angle (the (angles ! nat L))
          else L = R \<and> m = Infinity))) \<and>
   (0 \<le> dR \<and> dR \<le> int (length mb) \<and>
      (\<forall>i\<in>set (window dR). elbow_angle (mb ! nat i) \<noteq> Some 0) \<longrightarrow>
      (\<exists>L m. dbg_load_loop mb (window dR) (dR, Infinity) = Inr (L, m) \<and>
         (if \<exists>i\<in>set (window dR). elbow_angle (mb ! nat i) \<noteq> None
          then earliest_min (\<lambda>a. a \<noteq> None) (\<lambda>i. elbow_angle (mb ! nat i)) (window dR) L \<and>
               m = Angle (the (elbow_angle (mb ! nat L)))
          else L = dR \<and> m = Infinity))) \<and>
   (lockstep s \<and> zero_free (elbow_angles s) \<and>
    update ang now s frame lm vis = Inr (s', Some (k, ev)) \<longrightarrow>
      earliest_min (\<lambda>a. a \<noteq> None) (\<lambda>i. elbow_angles s' ! nat i)
        (window (release_idx k)) (load_idx k) \<and>
      elbow_angle_load ev = Angle (the (elbow_angles s' ! nat (load_idx k)))) \<and>
   (dbg_lockstep d \<and> zero_free (map elbow_angle (metrics_buffer d)) \<and>
    process_frame dang d dframe dlm dvis fnum ts = Inr (d', Some shot) \<longrightarrow>
      earliest_min (\<lambda>a. a \<noteq> None) (\<lambda>i. elbow_angle (metrics_buffer d' ! nat i))
        (window (release_idx shot)) (load_idx shot) \<and>
      load_angle shot = Angle (the (elbow_angle (metrics_buffer d' ! nat (load_idx shot)))))"
proof (intro conjI impI)
  assume "0 \<le> R \<and> R \<le> int (length angles) \<and> (\<forall>i\<in>set (window R). angles ! nat i \<noteq> Some 0)"
  then show "\<exists>L m. load_loop angles (window R) (R, Infinity) = Inr (L, m) \<and>
         (if \<exists>i\<in>set (window R). angles ! nat i \<noteq> None
          then earliest_min (\<lambda>a. a \<noteq> None) (\<lambda>i. angles ! nat i) (window R) L \<and>
               m = Angle (the (angles ! nat L))
          else L = R \<and> m = Infinity)"
    using load_loop_window_defined[of R angles] by blast
next
  assume "0 \<le> dR \<and> dR \<le> int (length mb) \<and>
      (\<forall>i\<in>set (window dR). elbow_angle (mb ! nat i) \<noteq> Some 0)"
  then show "\<exists>L m. dbg_load_loop mb (window dR) (dR, Infinity) = Inr (L, m) \<and>
         (if \<exists>i\<in>set (window dR). elbow_angle (mb ! nat i) \<noteq> None
          then earliest_min (\<lambda>a. a \<noteq> None) (\<lambda>i. elbow_angle (mb ! nat i)) (window dR) L \<and>
               m = Angle (the (elbow_angle (mb ! nat L)))
          else L = dR \<and> m = Infinity)"
    using dbg_load_loop_window_defined[of dR mb] by blast
next
  assume a: "lockstep s \<and> zero_free (elbow_angles s) \<and>
    update ang now s frame lm vis = Inr (s', Some (k, ev))"
  then have ls: "lockstep s" and zf: "zero_free (elbow_angles s)"
    and u: "update ang now s frame lm vis = Inr (s', Some (k, ev))" by blast+
  from update_Some_load_defined[OF ls zf u]
  show "earliest_min (\<lambda>a. a \<noteq> None) (\<lambda>i. elbow_angles s' ! nat i)
        (window (release_idx k)) (load_idx k)"
    and "elbow_angle_load ev = Angle (the (elbow_angles s' ! nat (load_idx k)))"
    by blast+
next
  assume a: "dbg_lockstep d \<and> zero_free (map elbow_angle (metrics_buffer d)) \<and>
    process_frame dang d dframe dlm dvis fnum ts = Inr (d', Some shot)"
  then have ls: "dbg_lockstep d" and zf: "zero_free (map elbow_angle (metrics_buffer d))"
    and u: "process_frame dang d dframe dlm dvis fnum ts = Inr (d', Some shot)" by blast+
  from process_frame_Some_load_defined[OF ls zf u]
  show "earliest_min (\<lambda>a. a \<noteq> None) (\<lambda>i. elbow_angle (metrics_buffer d' ! nat i))
        (window (release_idx shot)) (load_idx shot)"
    and "load_angle shot = Angle (the (elbow_angle (metrics_buffer d' ! nat (load_idx shot))))"
    by blast+
qed

lemma dip_window_eval:
  "load_loop (map Some dip_angles) (window 24) (24, Infinity) = Inr (12, Angle 80) \<and>
   dbg_load_loop (metrics_buffer dbg_dip_state) (window 24) (24, Infinity) = Inr (12, Angle 80) \<and>
   length dip_angles = 24 \<and> length (metrics_buffer dbg_dip_state) = 24 \<and>
   map Some dip_angles ! nat 12 \<noteq> None \<and> 12 \<in> set (window 24) \<and>
   elbow_angle (metrics_buffer dbg_dip_state ! nat 12) \<noteq> None \<and>
   (\<forall>i\<in>set (window 24). map Some dip_angles ! nat i \<noteq> Some 0) \<and>
   (\<forall>i\<in>set (window 24). elbow_angle (metrics_buffer dbg_dip_state ! nat i) \<noteq> Some 0) \<and>
   zero_free (elbow_angles dip_state) \<and>
   zero_free (map elbow_angle (metrics_buffer dbg_dip_state))"
  by code_simp

theorem load_is_earliest_minimum_witness:
  "(0::int) \<le> 24 \<and> 24 \<le> int (length (map Some dip_angles)) \<and>
   zero_free (elbow_angles dip_state) \<and> lockstep dip_state \<and>
   zero_free (map elbow_angle (metrics_buffer dbg_dip_state)) \<and> dbg_lockstep dbg_dip_state \<and>
   load_loop (map Some dip_angles) (window 24) (24, Infinity) = Inr (12, Angle 80) \<and>
   earliest_min (\<lambda>a. a \<noteq> None) (\<lambda>i. map Some dip_angles ! nat i) (window 24) 12 \<and>
   dbg_load_loop (metrics_buffer dbg_dip_state) (window 24) (24, Infinity) = Inr (12, Angle 80) \<and>
   earliest_min (\<lambda>a. a \<noteq> None) (\<lambda>i. elbow_angle (metrics_buffer dbg_dip_state ! nat i))
     (window 24) 12 \<and>
   (\<exists>s' k ev d' shot.
      update read_angle 0 dip_state 24 (pose 170) full_vis = Inr (s', Some (k, ev)) \<and>
      key_list k = [7, 12, 14, 16, 19, 21, 24, 24] \<and>
      earliest_min (\<lambda>a. a \<noteq> None) (\<lambda>i. elbow_angles s' ! nat i)
        (window (release_idx k)) (load_idx k) \<and>
      elbow_angle_load ev = Angle 80 \<and>
      process_frame read_angle dbg_dip_state 24 (pose 170) full_vis 25 0 = Inr (d', Some shot) \<and>
      earliest_min (\<lambda>a. a \<noteq> None) (\<lambda>i. elbow_angle (metrics_buffer d' ! nat i))
        (window (release_idx shot)) (load_idx shot) \<and>
      load_angle shot = Angle 80)"
proof -
  from dip_update obtain s' k ev where
    u: "update read_angle 0 dip_state 24 (pose 170) full_vis = Inr (s', Some (k, ev))"
    and kl: "key_list k = [7, 12, 14, 16, 19, 21, 24, 24]"
    and la: "elbow_angle_load ev = Angle 80"
    by blast
  from dbg_dip_update obtain d' shot where
    p: "process_frame read_angle dbg_dip_state 24 (pose 170) full_vis 25 0 = Inr (d', Some shot)"
    and dla: "load_angle shot = Angle 80"
    by blast
  note e = dip_window_eval
  note t = load_is_earliest_minimum[where R = 24 and angles = "map Some dip_angles"
      and dR = 24 and mb = "metrics_buffer dbg_dip_state"
      and ang = read_angle and now = 0 and s = dip_state and frame = 24 and lm = "pose 170"
      and vis = full_vis and s' = s' and k = k and ev = ev
      and d = dbg_dip_state and dang = read_angle and dframe = 24 and dlm = "pose 170"
      and dvis = full_vis and fnum = 25 and ts = 0 and d' = d' and shot = shot]
  have ex1: "\<exists>i\<in>set (window 24). map Some dip_angles ! nat i \<noteq> None"
    using e by blast
  have ex2: "\<exists>i\<in>set (window 24). elbow_angle (metrics_buffer dbg_dip_state ! nat i) \<noteq> None"
    using e by blast
  have len: "(0::int) \<le> 24 \<and> 24 \<le> int (length (map Some dip_angles))"
    "(0::int) \<le> 24 \<and> 24 \<le> int (length (metrics_buffer dbg_dip_state))"
    using e by simp_all
  have z: "\<forall>i\<in>set (window 24). map Some dip_angles ! nat i \<noteq> Some 0"
    "\<forall>i\<in>set (window 24). elbow_angle (metrics_buffer dbg_dip_state ! nat i) \<noteq> Some 0"
    "zero_free (elbow_angles dip_state)"
    "zero_free (map elbow_angle (metrics_buffer dbg_dip_state))"
    using e by blast+
  from t[THEN conjunct1] len(1) z(1) ex1 e
  have a: "earliest_min (\<lambda>a. a \<noteq> None) (\<lambda>i. map Some dip_angles ! nat i) (window 24) 12"
    by auto
  from t[THEN conjunct2, THEN conjunct1] len(2) z(2) ex2 e
  have b: "earliest_min (\<lambda>a. a \<noteq> None)
      (\<lambda>i. elbow_angle (metrics_buffer dbg_dip_state ! nat i)) (window 24) 12"
    by auto
  from t[THEN conjunct2, THEN conjunct2, THEN conjunct1] u dip_lockstep z(3)
  have c: "earliest_min (\<lambda>a. a \<noteq> None) (\<lambda>i. elbow_angles s' ! nat i)
      (window (release_idx k)) (load_idx k)"
    by blast
  from t[THEN conjunct2, THEN conjunct2, THEN conjunct2] p dbg_dip_lockstep z(4)
  have d: "earliest_min (\<lambda>a. a \<noteq> None) (\<lambda>i. elbow_angle (metrics_buffer d' ! nat i))
        (window (release_idx shot)) (load_idx shot)"
    by blast
  have C: "\<exists>s' k ev d' shot.
      update read_angle 0 dip_state 24 (pose 170) full_vis = Inr (s', Some (k, ev)) \<and>
      key_list k = [7, 12, 14, 16, 19, 21, 24, 24] \<and>
      earliest_min (\<lambda>a. a \<noteq> None) (\<lambda>i. elbow_angles s' ! nat i)
        (window (release_idx k)) (load_idx k) \<and>
      elbow_angle_load ev = Angle 80 \<and>
      process_frame read_angle dbg_dip_state 24 (pose 170) full_vis 25 0 = Inr (d', Some shot) \<and>
      earliest_min (\<lambda>a. a \<noteq> None) (\<lambda>i. elbow_angle (metrics_buffer d' ! nat i))
        (window (release_idx shot)) (load_idx shot) \<and>
      load_angle shot = Angle 80"
    using u kl c la p d dla by blast
  show ?thesis
    using len(1) z(3,4) dip_lockstep dbg_dip_lockstep e a b C by blast
qed

subsection \<open>An angle of exactly 0\<close>

text \<open>
  The hypothesis on the buffered angles is needed by the code as written: the loops
  test \<open>if angle and angle < min_angle\<close>, and a buffer holding 0.0, which
  \<open>calculate_angle\<close> never returns, would have that frame passed over.
\<close>

lemma zero_eval:
  "load_loop zero_angles (window 12) (12, Infinity) = Inr (1, Angle 90) \<and>
   zero_angles ! nat 0 = Some 0 \<and> zero_angles ! nat 1 = Some 90 \<and>
   0 \<in> set (window 12) \<and> 1 \<in> set (window 12) \<and>
   map_sum id (map_option (\<lambda>(k, ev). (load_idx k, release_idx k, elbow_angle_load ev)))
     (create_shot_from_release read_angle 0 zero_state 12) = Inr (Some (1, 12, Angle 90))"
  by code_simp

lemma zero_angle_is_skipped:
  "load_loop zero_angles (window 12) (12, Infinity) = Inr (1, Angle 90) \<and>
   zero_angles ! nat 0 = Some 0 \<and> 0 \<in> set (window 12) \<and>
   \<not> zero_free zero_angles"
  using zero_eval by (simp add: zero_free_def zero_angles_def)

section \<open>The diagnostic slice\<close>

lemma map_nth_upto:
  assumes "0 \<le> a" "a \<le> int (length xs)"
  shows "map (\<lambda>i. xs ! nat i) [a..int (length xs) - 1] = drop (nat a) xs"
proof (rule nth_equalityI)
  show "length (map (\<lambda>i. xs ! nat i) [a..int (length xs) - 1]) = length (drop (nat a) xs)"
    using assms by simp
next
  fix i assume "i < length (map (\<lambda>i. xs ! nat i) [a..int (length xs) - 1])"
  then have i: "a + int i \<le> int (length xs) - 1" using assms by simp
  then have "[a..int (length xs) - 1] ! i = a + int i" by (rule nth_upto)
  moreover have "i < length [a..int (length xs) - 1]" using i assms by simp
  moreover have "nat (a + int i) = nat a + i" using assms by (simp add: nat_add_distrib)
  ultimately show "map (\<lambda>i. xs ! nat i) [a..int (length xs) - 1] ! i = drop (nat a) xs ! i"
    using assms i by simp
qed

lemma py_slice_to_end:
  assumes "0 \<le> a" "a \<le> int (length xs)"
  shows "py_slice xs a (int (length xs)) = drop (nat a) xs"
  using assms by (simp add: py_slice_def Let_def)

lemma process_frame_Some_window:
  assumes p: "process_frame ang s frame lm vis fnum ts = Inr (s', Some shot)"
    and ls: "dbg_lockstep s"
  shows "frame_start shot = max 0 (stance_idx shot - 10)"
    and "frame_end shot = min (int (length (metrics_buffer s'))) (followthrough_idx shot + 10)"
    and "frame_end shot = int (length (metrics_buffer s'))"
    and "frame_metrics shot = py_slice (metrics_buffer s') (frame_start shot) (frame_end shot)"
    and "frame_metrics shot = map (\<lambda>i. metrics_buffer s' ! nat i)
           [max 0 (stance_idx shot - 10) ..
            min (int (length (metrics_buffer s')) - 1) (followthrough_idx shot + 10)]"
proof -
  from process_frame_Some[OF p] obtain s1 ft L where
    i: "dbg_ingest ang s frame lm vis fnum ts = Inr (s1, ft)"
    and s': "s' = s1\<lparr> shot_count := shot_count s1 + 1, shots := shots s1 @ [shot],
                   dbg_last_shot_frame := int (length (dbg_frames_buffer s1)) - 1 \<rparr>"
    and L: "0 \<le> L" "L + MIN_SHOT_FRAMES \<le> int (length (dbg_frames_buffer s1)) - 1"
    and k: "key_frames.truncate shot =
          sample_key_frames (int (length (dbg_frames_buffer s1))) L (int (length (dbg_frames_buffer s1)) - 1)"
    and w: "frame_start shot = max 0 (stance_idx shot - 10)"
      "frame_end shot = min (int (length (metrics_buffer s1))) (followthrough_idx shot + 10)"
      "frame_metrics shot = py_slice (metrics_buffer s1) (frame_start shot) (frame_end shot)"
    by blast
  let ?n = "int (length (dbg_frames_buffer s1))"
  have mb: "metrics_buffer s' = metrics_buffer s1" by (simp add: s')
  from i dbg_ingest_eq[OF ls, of ang frame lm vis fnum ts]
  have "s1 = dbg_ingested ang s frame lm vis fnum ts" by simp
  then have "dbg_lockstep s1" using dbg_ingested_lockstep[OF ls] by simp
  then have n: "int (length (metrics_buffer s1)) = ?n" by (simp add: dbg_lockstep_def)
  have "followthrough_idx (key_frames.truncate shot) = ?n - 1"
    unfolding k by (rule sampled_newest[OF L])
  then have f: "followthrough_idx shot = ?n - 1" by (simp add: truncate_fields)
  have "key_frame_chain ?n (key_frames.truncate shot)"
    unfolding k by (rule sampled_newest[OF L])
  then have c: "key_frame_chain ?n shot" by (simp add: chain_truncate)
  then have st: "0 \<le> stance_idx shot" "stance_idx shot \<le> ?n - 1"
    by (simp_all add: key_frame_chain_def)
  show "frame_start shot = max 0 (stance_idx shot - 10)" by (rule w)
  show "frame_end shot = min (int (length (metrics_buffer s'))) (followthrough_idx shot + 10)"
    unfolding mb by (rule w)
  show fe: "frame_end shot = int (length (metrics_buffer s'))"
    unfolding mb w(2) n f by simp
  show sl: "frame_metrics shot = py_slice (metrics_buffer s') (frame_start shot) (frame_end shot)"
    unfolding mb by (rule w)
  have a: "0 \<le> max 0 (stance_idx shot - 10)"
    "max 0 (stance_idx shot - 10) \<le> int (length (metrics_buffer s'))"
    using st by (simp_all add: mb n)
  have e: "min (int (length (metrics_buffer s')) - 1) (followthrough_idx shot + 10)
      = int (length (metrics_buffer s')) - 1"
    unfolding mb n f by simp
  show "frame_metrics shot = map (\<lambda>i. metrics_buffer s' ! nat i)
           [max 0 (stance_idx shot - 10) ..
            min (int (length (metrics_buffer s')) - 1) (followthrough_idx shot + 10)]"
    unfolding e map_nth_upto[OF a] sl fe w(1) by (rule py_slice_to_end[OF a])
qed

text \<open>
  Claim C8, for the detector that has the slice. Every \<open>DetectedShot\<close> that
  \<open>process_frame\<close> of \<open>ShotDetectionDebugger\<close> returns carries in \<open>frame_metrics\<close> the
  buffered \<open>FrameMetrics\<close> of exactly the indices from 10 before the stance index to
  10 after the follow-through index, clamped to \<open>[0, len - 1]\<close>. It is the Python slice
  from \<open>frame_start = max(0, stance - 10)\<close> to the exclusive
  \<open>frame_end = min(len, follow_through + 10)\<close>, and since the follow-through index is
  the newest one, \<open>frame_end\<close> is \<open>len\<close>.
\<close>

theorem diagnostic_slice:
  "dbg_lockstep d \<and> process_frame dang d dframe dlm dvis fnum ts = Inr (d', Some shot) \<longrightarrow>
     frame_start shot = max 0 (stance_idx shot - 10) \<and>
     frame_end shot = min (int (length (metrics_buffer d'))) (followthrough_idx shot + 10) \<and>
     frame_end shot = int (length (metrics_buffer d')) \<and>
     frame_metrics shot = py_slice (metrics_buffer d') (frame_start shot) (frame_end shot) \<and>
     frame_metrics shot = map (\<lambda>i. metrics_buffer d' ! nat i)
           [max 0 (stance_idx shot - 10) ..
            min (int (length (metrics_buffer d')) - 1) (followthrough_idx shot + 10)]"
proof
  assume a: "dbg_lockstep d \<and> process_frame dang d dframe dlm dvis fnum ts = Inr (d', Some shot)"
  then have p: "process_frame dang d dframe dlm dvis fnum ts = Inr (d', Some shot)"
    and ls: "dbg_lockstep d" by blast+
  note w = process_frame_Some_window[OF p ls]
  show "frame_start shot = max 0 (stance_idx shot - 10) \<and>
     frame_end shot = min (int (length (metrics_buffer d'))) (followthrough_idx shot + 10) \<and>
     frame_end shot = int (length (metrics_buffer d')) \<and>
     frame_metrics shot = py_slice (metrics_buffer d') (frame_start shot) (frame_end shot) \<and>
     frame_metrics shot = map (\<lambda>i. metrics_buffer d' ! nat i)
           [max 0 (stance_idx shot - 10) ..
            min (int (length (metrics_buffer d')) - 1) (followthrough_idx shot + 10)]"
    using w(1) w(2) w(3) w(4) w(5) by (intro conjI)
qed

theorem diagnostic_slice_witness:
  "dbg_lockstep dbg_dip_state \<and>
   (\<exists>d' shot.
      process_frame read_angle dbg_dip_state 24 (pose 170) full_vis 25 0 = Inr (d', Some shot) \<and>
      key_list (key_frames.truncate shot) = [7, 12, 14, 16, 19, 21, 24, 24] \<and>
      frame_start shot = 0 \<and> frame_end shot = 25 \<and> length (frame_metrics shot) = 25 \<and>
      frame_metrics shot = py_slice (metrics_buffer d') 0 25 \<and>
      frame_metrics shot = map (\<lambda>i. metrics_buffer d' ! nat i)
           [max 0 (stance_idx shot - 10) ..
            min (int (length (metrics_buffer d')) - 1) (followthrough_idx shot + 10)])"
proof -
  from dbg_dip_update obtain d' shot where
    p: "process_frame read_angle dbg_dip_state 24 (pose 170) full_vis 25 0 = Inr (d', Some shot)"
    and kl: "key_list (key_frames.truncate shot) = [7, 12, 14, 16, 19, 21, 24, 24]"
    and f: "frame_start shot = 0" "frame_end shot = 25" "length (frame_metrics shot) = 25"
    by blast
  from diagnostic_slice[of dbg_dip_state read_angle 24 "pose 170" full_vis 25 0 d' shot]
    dbg_dip_lockstep p
  have w: "frame_metrics shot = py_slice (metrics_buffer d') (frame_start shot) (frame_end shot)"
    "frame_metrics shot = map (\<lambda>i. metrics_buffer d' ! nat i)
           [max 0 (stance_idx shot - 10) ..
            min (int (length (metrics_buffer d')) - 1) (followthrough_idx shot + 10)]"
    by blast+
  show ?thesis
    using dbg_dip_lockstep p kl f w(1)[unfolded f] w(2) by blast
qed

lemma live_event_eval:
  "map_sum id snd (update read_angle 0 dip_state 24 (pose 170) full_vis) =
   map_sum id snd (update read_angle 0 dip_state_b 24 (pose 170) full_vis) \<and>
   (case update read_angle 0 dip_state 24 (pose 170) full_vis of
      Inr (s', Some (k, ev)) \<Rightarrow>
        max 0 (stance_idx k - 10) \<le> 10 \<and> 10 \<le> followthrough_idx k + 10
    | _ \<Rightarrow> False) \<and>
   elbow_angles dip_state ! 10 = Some 110 \<and> elbow_angles dip_state_b ! 10 = Some 111"
  by code_simp

text \<open>
  A \<open>ShotEvent\<close> of the live detector holds no part of the angle history: two
  detectors whose buffered angles differ at index 10, between 10 before the stance and
  10 after the follow-through, return the very same event for the same frame.
\<close>

theorem live_event_has_no_slice_counterexample:
  "map_sum id snd (update read_angle 0 dip_state 24 (pose 170) full_vis) =
   map_sum id snd (update read_angle 0 dip_state_b 24 (pose 170) full_vis) \<and>
   (case update read_angle 0 dip_state 24 (pose 170) full_vis of
      Inr (s', Some (k, ev)) \<Rightarrow>
        max 0 (stance_idx k - 10) \<le> 10 \<and> 10 \<le> followthrough_idx k + 10
    | _ \<Rightarrow> False) \<and>
   elbow_angles dip_state ! 10 \<noteq> elbow_angles dip_state_b ! 10"
  using live_event_eval by simp

section \<open>Eviction and the cooldown\<close>

lemma since_last_Nil: "since_last [] = None"
  by (simp add: since_last_def)

lemma since_last_snoc:
  "since_last (rs @ [r]) = (if r = None then map_option Suc (since_last rs) else Some 0)"
  by (simp add: since_last_def)

lemma distance_step:
  fixes len idx cap :: int
  assumes "0 \<le> len" "len \<le> cap" "1 \<le> cap"
    and "distance_ok cap len idx gap"
  shows "distance_ok cap (min (len + 1) cap) (rebase idx (nat (len + 1 - cap))) (map_option Suc gap)"
proof (cases gap)
  case None
  with assms show ?thesis by (simp add: distance_ok_def rebase_def)
next
  case (Some d)
  with assms(4) have i: "0 \<le> idx"
    and c: "len - 1 - idx = int d \<or> (idx = 0 \<and> len = cap \<and> cap - 1 \<le> int d)"
    by (simp_all add: distance_ok_def)
  show ?thesis
  proof (cases "len < cap")
    case True
    with c i assms show ?thesis
      by (simp add: distance_ok_def rebase_def Some)
  next
    case False
    with assms have l: "len = cap" by simp
    have k: "nat (len + 1 - cap) = 1" using l by simp
    show ?thesis
      using c i assms(3) unfolding k l Some distance_ok_def rebase_def
      by (auto simp: max_def)
  qed
qed

lemma distance_accept:
  "1 \<le> len \<Longrightarrow> distance_ok cap len (len - 1) (Some 0)"
  by (simp add: distance_ok_def)

lemma distance_check:
  assumes "distance_ok cap len idx (Some d)" and "COOLDOWN_FRAMES \<le> cap - 1"
  shows "(COOLDOWN_FRAMES \<le> len - 1 - idx) = (COOLDOWN_FRAMES \<le> int d)"
  using assms by (auto simp: distance_ok_def)

lemma ingested_inv:
  assumes "cooldown_inv s rs"
  shows "lockstep (ingested ang s frame lm vis)"
    and "int (length (frames_buffer (ingested ang s frame lm vis))) \<le> max_buffer"
    and "1 \<le> int (length (frames_buffer (ingested ang s frame lm vis)))"
    and "distance_ok max_buffer (int (length (frames_buffer (ingested ang s frame lm vis))))
          (last_shot_frame (ingested ang s frame lm vis)) (map_option Suc (since_last rs))"
proof -
  from assms have ls: "lockstep s" and le: "int (length (frames_buffer s)) \<le> max_buffer"
    and d: "distance_ok max_buffer (int (length (frames_buffer s))) (last_shot_frame s) (since_last rs)"
    by (simp_all add: cooldown_inv_def)
  show "lockstep (ingested ang s frame lm vis)" by (rule ingested_lockstep[OF ls])
  show "int (length (frames_buffer (ingested ang s frame lm vis))) \<le> max_buffer"
    unfolding ingested_fields by simp
  show "1 \<le> int (length (frames_buffer (ingested ang s frame lm vis)))"
    unfolding ingested_fields by (simp add: max_buffer_def)
  have k: "excess max_buffer (frames_buffer s @ [frame])
     = nat (int (length (frames_buffer s)) + 1 - max_buffer)"
    by (simp add: excess_def)
  from distance_step[OF _ le _ d]
  show "distance_ok max_buffer (int (length (frames_buffer (ingested ang s frame lm vis))))
          (last_shot_frame (ingested ang s frame lm vis)) (map_option Suc (since_last rs))"
    unfolding ingested_fields k by (simp add: max_buffer_def)
qed

lemma update_inv:
  assumes inv: "cooldown_inv s rs" and u: "update ang now s frame lm vis = Inr (s', r)"
  shows "cooldown_inv s' (rs @ [r])"
proof -
  from inv have ls: "lockstep s" by (simp add: cooldown_inv_def)
  let ?s1 = "ingested ang s frame lm vis"
  from update_cases[OF u] ingest_eq[OF ls, of ang frame lm vis] obtain ft where
    d: "detect ang now ?s1 ft = Inr (s', r)" by auto
  note i = ingested_inv[OF inv, of ang frame lm vis]
  from detect_cases[OF d] show ?thesis
  proof
    assume "r = None \<and> s' = ?s1"
    with i show ?thesis by (simp add: cooldown_inv_def since_last_snoc)
  next
    assume "\<exists>ev. r = Some ev \<and> s' = ?s1\<lparr> last_shot_frame := int (length (frames_buffer ?s1)) - 1 \<rparr>
            \<and> create_shot_from_release ang now ?s1 (int (length (frames_buffer ?s1)) - 1) = Inr (Some ev)
            \<and> STABILITY_REQUIRED \<le> stability_count ?s1
            \<and> COOLDOWN_FRAMES \<le> int (length (frames_buffer ?s1)) - 1 - last_shot_frame ?s1
            \<and> (\<exists>a. f_elbow_angle ft = Some a \<and> RELEASE_ANGLE < a)
            \<and> f_wrist_above_shoulder ft"
    then obtain ev where r: "r = Some ev"
      and s': "s' = ?s1\<lparr> last_shot_frame := int (length (frames_buffer ?s1)) - 1 \<rparr>"
      by blast
    have "lockstep s'" using i(1) by (simp add: s' lockstep_def)
    moreover have "int (length (frames_buffer s')) \<le> max_buffer" using i(2) by (simp add: s')
    moreover have "distance_ok max_buffer (int (length (frames_buffer s'))) (last_shot_frame s')
        (since_last (rs @ [r]))"
      using distance_accept[OF i(3)] by (simp add: s' r since_last_snoc)
    ultimately show ?thesis by (simp add: cooldown_inv_def)
  qed
qed

lemma init_inv: "cooldown_inv (init sd) []"
  using lockstep_init[of sd]
  by (simp add: cooldown_inv_def since_last_Nil distance_ok_def init_def max_buffer_def)

lemma run_inv:
  "cooldown_inv s0 rs0 \<Longrightarrow>
   \<exists>s rs. run ang s0 xs = Inr (s, rs) \<and> length rs = length xs \<and> cooldown_inv s (rs0 @ rs)"
proof (induction xs arbitrary: s0 rs0)
  case Nil
  then show ?case by simp
next
  case (Cons x xs)
  from Cons.prems have "lockstep s0" by (simp add: cooldown_inv_def)
  from update_total[OF this] obtain s1 r where
    u: "update ang (fi_now x) s0 (fi_frame x) (fi_landmarks x) (fi_visibility x) = Inr (s1, r)"
    by blast
  from update_inv[OF Cons.prems u] have "cooldown_inv s1 (rs0 @ [r])" .
  from Cons.IH[OF this] obtain s rs where
    "run ang s1 xs = Inr (s, rs)" "length rs = length xs" "cooldown_inv s ((rs0 @ [r]) @ rs)"
    by blast
  with u show ?case by simp
qed

lemma cooldown_check:
  assumes inv: "cooldown_inv s rs" and d: "since_last rs = Some d"
  shows "\<exists>s1 ft. ingest ang s frame lm vis = Inr (s1, ft) \<and>
     ((COOLDOWN_FRAMES \<le> int (length (frames_buffer s1)) - 1 - last_shot_frame s1)
       = (COOLDOWN_FRAMES \<le> int d + 1))"
proof -
  from inv have ls: "lockstep s" by (simp add: cooldown_inv_def)
  note i = ingested_inv(4)[OF inv, of ang frame lm vis, unfolded d]
  have "distance_ok max_buffer (int (length (frames_buffer (ingested ang s frame lm vis))))
          (last_shot_frame (ingested ang s frame lm vis)) (Some (Suc d))"
    using i by simp
  from distance_check[OF this] have
    "(COOLDOWN_FRAMES \<le> int (length (frames_buffer (ingested ang s frame lm vis))) - 1
        - last_shot_frame (ingested ang s frame lm vis)) = (COOLDOWN_FRAMES \<le> int d + 1)"
    by (simp add: COOLDOWN_FRAMES_def max_buffer_def)
  with ingest_eq[OF ls, of ang frame lm vis] show ?thesis by blast
qed

lemma dbg_ingested_inv:
  assumes "dbg_cooldown_inv s rs"
  shows "dbg_lockstep (dbg_ingested ang s frame lm vis fnum ts)"
    and "int (length (dbg_frames_buffer (dbg_ingested ang s frame lm vis fnum ts))) \<le> dbg_max_buffer"
    and "1 \<le> int (length (dbg_frames_buffer (dbg_ingested ang s frame lm vis fnum ts)))"
    and "distance_ok dbg_max_buffer
          (int (length (dbg_frames_buffer (dbg_ingested ang s frame lm vis fnum ts))))
          (dbg_last_shot_frame (dbg_ingested ang s frame lm vis fnum ts))
          (map_option Suc (since_last rs))"
proof -
  from assms have ls: "dbg_lockstep s"
    and le: "int (length (dbg_frames_buffer s)) \<le> dbg_max_buffer"
    and d: "distance_ok dbg_max_buffer (int (length (dbg_frames_buffer s)))
              (dbg_last_shot_frame s) (since_last rs)"
    by (simp_all add: dbg_cooldown_inv_def)
  show "dbg_lockstep (dbg_ingested ang s frame lm vis fnum ts)"
    by (rule dbg_ingested_lockstep[OF ls])
  show "int (length (dbg_frames_buffer (dbg_ingested ang s frame lm vis fnum ts))) \<le> dbg_max_buffer"
    unfolding dbg_ingested_fields by simp
  show "1 \<le> int (length (dbg_frames_buffer (dbg_ingested ang s frame lm vis fnum ts)))"
    unfolding dbg_ingested_fields by (simp add: dbg_max_buffer_def)
  have k: "excess dbg_max_buffer (dbg_frames_buffer s @ [frame])
     = nat (int (length (dbg_frames_buffer s)) + 1 - dbg_max_buffer)"
    by (simp add: excess_def)
  from distance_step[OF _ le _ d]
  show "distance_ok dbg_max_buffer
          (int (length (dbg_frames_buffer (dbg_ingested ang s frame lm vis fnum ts))))
          (dbg_last_shot_frame (dbg_ingested ang s frame lm vis fnum ts))
          (map_option Suc (since_last rs))"
    unfolding dbg_ingested_fields k by (simp add: dbg_max_buffer_def)
qed

lemma process_frame_inv:
  assumes inv: "dbg_cooldown_inv s rs"
    and u: "process_frame ang s frame lm vis fnum ts = Inr (s', r)"
  shows "dbg_cooldown_inv s' (rs @ [r])"
proof (cases r)
  case None
  from inv have ls: "dbg_lockstep s" by (simp add: dbg_cooldown_inv_def)
  let ?s1 = "dbg_ingested ang s frame lm vis fnum ts"
  from process_frame_cases[OF u] dbg_ingest_eq[OF ls, of ang frame lm vis fnum ts] obtain ft where
    d: "dbg_detect ?s1 ft = Inr (s', r)" by auto
  from dbg_detect_cases[OF d] None have "s' = ?s1" by auto
  with dbg_ingested_inv[OF inv, of ang frame lm vis fnum ts] None show ?thesis
    by (simp add: dbg_cooldown_inv_def since_last_snoc)
next
  case (Some shot)
  from inv have ls: "dbg_lockstep s" by (simp add: dbg_cooldown_inv_def)
  let ?s1 = "dbg_ingested ang s frame lm vis fnum ts"
  note i = dbg_ingested_inv[OF inv, of ang frame lm vis fnum ts]
  from process_frame_Some[OF u[unfolded Some]]
    dbg_ingest_eq[OF ls, of ang frame lm vis fnum ts]
  have s': "s' = ?s1\<lparr> shot_count := shot_count ?s1 + 1, shots := shots ?s1 @ [shot],
                   dbg_last_shot_frame := int (length (dbg_frames_buffer ?s1)) - 1 \<rparr>"
    by auto
  have "dbg_lockstep s'" using i(1) by (simp add: s' dbg_lockstep_def)
  moreover have "int (length (dbg_frames_buffer s')) \<le> dbg_max_buffer"
    using i(2) by (simp add: s')
  moreover have "distance_ok dbg_max_buffer (int (length (dbg_frames_buffer s')))
      (dbg_last_shot_frame s') (since_last (rs @ [r]))"
    using distance_accept[OF i(3)] by (simp add: s' Some since_last_snoc)
  ultimately show ?thesis by (simp add: dbg_cooldown_inv_def)
qed

lemma dbg_init_inv: "dbg_cooldown_inv (dbg_init sd) []"
  using dbg_lockstep_init[of sd]
  by (simp add: dbg_cooldown_inv_def since_last_Nil distance_ok_def dbg_init_def dbg_max_buffer_def)

lemma dbg_run_inv:
  "dbg_cooldown_inv s0 rs0 \<Longrightarrow>
   \<exists>s rs. dbg_run ang s0 xs = Inr (s, rs) \<and> length rs = length xs \<and> dbg_cooldown_inv s (rs0 @ rs)"
proof (induction xs arbitrary: s0 rs0)
  case Nil
  then show ?case by simp
next
  case (Cons x xs)
  from Cons.prems have "dbg_lockstep s0" by (simp add: dbg_cooldown_inv_def)
  from process_frame_total[OF this] obtain s1 r where
    u: "process_frame ang s0 (di_frame x) (di_landmarks x) (di_visibility x)
          (di_frame_num x) (di_timestamp_ms x) = Inr (s1, r)"
    by blast
  from process_frame_inv[OF Cons.prems u] have "dbg_cooldown_inv s1 (rs0 @ [r])" .
  from Cons.IH[OF this] obtain s rs where
    "dbg_run ang s1 xs = Inr (s, rs)" "length rs = length xs"
    "dbg_cooldown_inv s ((rs0 @ [r]) @ rs)"
    by blast
  with u show ?case by simp
qed

lemma dbg_cooldown_check:
  assumes inv: "dbg_cooldown_inv s rs" and d: "since_last rs = Some d"
  shows "\<exists>s1 ft. dbg_ingest ang s frame lm vis fnum ts = Inr (s1, ft) \<and>
     ((COOLDOWN_FRAMES \<le> int (length (dbg_frames_buffer s1)) - 1 - dbg_last_shot_frame s1)
       = (COOLDOWN_FRAMES \<le> int d + 1))"
proof -
  from inv have ls: "dbg_lockstep s" by (simp add: dbg_cooldown_inv_def)
  note i = dbg_ingested_inv(4)[OF inv, of ang frame lm vis fnum ts, unfolded d]
  have "distance_ok dbg_max_buffer
          (int (length (dbg_frames_buffer (dbg_ingested ang s frame lm vis fnum ts))))
          (dbg_last_shot_frame (dbg_ingested ang s frame lm vis fnum ts)) (Some (Suc d))"
    using i by simp
  from distance_check[OF this] have
    "(COOLDOWN_FRAMES \<le> int (length (dbg_frames_buffer (dbg_ingested ang s frame lm vis fnum ts))) - 1
        - dbg_last_shot_frame (dbg_ingested ang s frame lm vis fnum ts)) = (COOLDOWN_FRAMES \<le> int d + 1)"
    by (simp add: COOLDOWN_FRAMES_def dbg_max_buffer_def)
  with dbg_ingest_eq[OF ls, of ang frame lm vis fnum ts] show ?thesis by blast
qed

lemma trim_buffer_fields:
  assumes "lockstep t"
  shows "\<exists>t'. trim_buffer t = Inr t' \<and>
     frames_buffer t' = drop (excess max_buffer (frames_buffer t)) (frames_buffer t) \<and>
     int (length (frames_buffer t')) \<le> max_buffer \<and>
     last_shot_frame t' =
       (if 0 \<le> last_shot_frame t
        then max 0 (last_shot_frame t - int (excess max_buffer (frames_buffer t)))
        else last_shot_frame t)"
  unfolding trim_buffer_eq[OF assms]
  by (simp add: rebase_def excess_def max_buffer_def)

lemma dbg_trim_buffer_fields:
  assumes "dbg_lockstep t"
  shows "\<exists>t'. dbg_trim_buffer t = Inr t' \<and>
     dbg_frames_buffer t' = drop (excess dbg_max_buffer (dbg_frames_buffer t)) (dbg_frames_buffer t) \<and>
     int (length (dbg_frames_buffer t')) \<le> dbg_max_buffer \<and>
     dbg_last_shot_frame t' =
       (if 0 \<le> dbg_last_shot_frame t
        then max 0 (dbg_last_shot_frame t - int (excess dbg_max_buffer (dbg_frames_buffer t)))
        else dbg_last_shot_frame t)"
  unfolding dbg_trim_buffer_eq[OF assms]
  by (simp add: rebase_def excess_def dbg_max_buffer_def)

lemma late_shot_eval:
  "(case run read_angle (init ''right'') late_shot of
      Inr (s, rs) \<Rightarrow>
        length (frames_buffer s) = 180 \<and> last_shot_frame s = 174 \<and> since_last rs = Some 5 \<and>
        length rs = 191 \<and> map_option (release_idx \<circ> fst) (rs ! 185) = Some 179
    | _ \<Rightarrow> False)"
  by code_simp

lemma eval_runE:
  "(case x of Inr (s, rs) \<Rightarrow> P s rs | _ \<Rightarrow> False) \<Longrightarrow> \<exists>s rs. x = Inr (s, rs) \<and> P s rs"
  by (auto split: sum.splits prod.splits)

lemma dbg_short_run_eval:
  "(case dbg_run read_angle (dbg_init ''right'') (dbg_steady 0 12) of
      Inr (s, rs) \<Rightarrow>
        length (dbg_frames_buffer s) = 12 \<and> dbg_last_shot_frame s = 10 \<and> since_last rs = Some 1
    | _ \<Rightarrow> False)"
  by code_simp

lemma over_state_eval:
  "lockstep over_state \<and> excess max_buffer (frames_buffer over_state) = 3 \<and>
   last_shot_frame over_state = 2 \<and>
   dbg_lockstep dbg_over_state \<and> excess dbg_max_buffer (dbg_frames_buffer dbg_over_state) = 2 \<and>
   dbg_last_shot_frame dbg_over_state = 150"
  by (simp add: lockstep_def dbg_lockstep_def over_state_def dbg_over_state_def excess_def
      max_buffer_def dbg_max_buffer_def)

text \<open>
  Claim C1. For every sequence \<open>xs\<close> of frames fed to a fresh detector, live (capacity
  \<open>max_buffer = 180\<close>) or debug (capacity 200): no call raises, and the buffer is never
  longer than the capacity. \<open>_trim_buffer\<close>, on buffers in step, evicts the
  \<open>k = excess\<close> oldest frames and replaces a stored last-shot index \<open>i \<ge> 0\<close> by
  \<open>max(0, i - k)\<close> (the start value -100, which is no index of a shot, is kept). And
  the cooldown test is that of the true distance: if the last event was emitted \<open>d\<close>
  frames before the end of \<open>xs\<close> (\<open>since_last\<close>), then for the next frame, which is
  \<open>d + 1\<close> frames after that event, the test
  \<open>current_idx - last_shot_frame \<ge> COOLDOWN_FRAMES\<close> on the trimmed buffer holds exactly
  when \<open>d + 1 \<ge> COOLDOWN_FRAMES\<close>, however many frames were evicted in between.
\<close>

theorem eviction_rebases_cooldown:
  "(\<exists>s rs. run ang (init sd) xs = Inr (s, rs) \<and> length rs = length xs \<and>
      int (length (frames_buffer s)) \<le> max_buffer \<and>
      (\<forall>d frame lm vis. since_last rs = Some d \<longrightarrow>
         (\<exists>s1 ft. ingest ang s frame lm vis = Inr (s1, ft) \<and>
            ((COOLDOWN_FRAMES \<le> int (length (frames_buffer s1)) - 1 - last_shot_frame s1)
              = (COOLDOWN_FRAMES \<le> int d + 1))))) \<and>
   (lockstep t \<longrightarrow>
      (\<exists>t'. trim_buffer t = Inr t' \<and>
         frames_buffer t' = drop (excess max_buffer (frames_buffer t)) (frames_buffer t) \<and>
         int (length (frames_buffer t')) \<le> max_buffer \<and>
         last_shot_frame t' =
           (if 0 \<le> last_shot_frame t
            then max 0 (last_shot_frame t - int (excess max_buffer (frames_buffer t)))
            else last_shot_frame t))) \<and>
   (\<exists>s rs. dbg_run dang (dbg_init dsd) dxs = Inr (s, rs) \<and> length rs = length dxs \<and>
      int (length (dbg_frames_buffer s)) \<le> dbg_max_buffer \<and>
      (\<forall>d frame lm vis fnum ts. since_last rs = Some d \<longrightarrow>
         (\<exists>s1 ft. dbg_ingest dang s frame lm vis fnum ts = Inr (s1, ft) \<and>
            ((COOLDOWN_FRAMES \<le> int (length (dbg_frames_buffer s1)) - 1 - dbg_last_shot_frame s1)
              = (COOLDOWN_FRAMES \<le> int d + 1))))) \<and>
   (dbg_lockstep dt \<longrightarrow>
      (\<exists>t'. dbg_trim_buffer dt = Inr t' \<and>
         dbg_frames_buffer t' =
           drop (excess dbg_max_buffer (dbg_frames_buffer dt)) (dbg_frames_buffer dt) \<and>
         int (length (dbg_frames_buffer t')) \<le> dbg_max_buffer \<and>
         dbg_last_shot_frame t' =
           (if 0 \<le> dbg_last_shot_frame dt
            then max 0 (dbg_last_shot_frame dt - int (excess dbg_max_buffer (dbg_frames_buffer dt)))
            else dbg_last_shot_frame dt)))"
proof (intro conjI impI)
  from run_inv[OF init_inv, of ang sd xs] obtain s rs where
    r: "run ang (init sd) xs = Inr (s, rs)" "length rs = length xs"
    and inv: "cooldown_inv s rs"
    by auto
  from inv have le: "int (length (frames_buffer s)) \<le> max_buffer"
    by (simp add: cooldown_inv_def)
  show "\<exists>s rs. run ang (init sd) xs = Inr (s, rs) \<and> length rs = length xs \<and>
      int (length (frames_buffer s)) \<le> max_buffer \<and>
      (\<forall>d frame lm vis. since_last rs = Some d \<longrightarrow>
         (\<exists>s1 ft. ingest ang s frame lm vis = Inr (s1, ft) \<and>
            ((COOLDOWN_FRAMES \<le> int (length (frames_buffer s1)) - 1 - last_shot_frame s1)
              = (COOLDOWN_FRAMES \<le> int d + 1))))"
    using r le cooldown_check[OF inv]
    by (intro exI[of _ s] exI[of _ rs]) blast
next
  assume "lockstep t"
  then show "\<exists>t'. trim_buffer t = Inr t' \<and>
         frames_buffer t' = drop (excess max_buffer (frames_buffer t)) (frames_buffer t) \<and>
         int (length (frames_buffer t')) \<le> max_buffer \<and>
         last_shot_frame t' =
           (if 0 \<le> last_shot_frame t
            then max 0 (last_shot_frame t - int (excess max_buffer (frames_buffer t)))
            else last_shot_frame t)"
    by (rule trim_buffer_fields)
next
  from dbg_run_inv[OF dbg_init_inv, of dang dsd dxs] obtain s rs where
    r: "dbg_run dang (dbg_init dsd) dxs = Inr (s, rs)" "length rs = length dxs"
    and inv: "dbg_cooldown_inv s rs"
    by auto
  from inv have le: "int (length (dbg_frames_buffer s)) \<le> dbg_max_buffer"
    by (simp add: dbg_cooldown_inv_def)
  show "\<exists>s rs. dbg_run dang (dbg_init dsd) dxs = Inr (s, rs) \<and> length rs = length dxs \<and>
      int (length (dbg_frames_buffer s)) \<le> dbg_max_buffer \<and>
      (\<forall>d frame lm vis fnum ts. since_last rs = Some d \<longrightarrow>
         (\<exists>s1 ft. dbg_ingest dang s frame lm vis fnum ts = Inr (s1, ft) \<and>
            ((COOLDOWN_FRAMES \<le> int (length (dbg_frames_buffer s1)) - 1 - dbg_last_shot_frame s1)
              = (COOLDOWN_FRAMES \<le> int d + 1))))"
    using r le dbg_cooldown_check[OF inv]
    by (intro exI[of _ s] exI[of _ rs]) blast
next
  assume "dbg_lockstep dt"
  then show "\<exists>t'. dbg_trim_buffer dt = Inr t' \<and>
         dbg_frames_buffer t' =
           drop (excess dbg_max_buffer (dbg_frames_buffer dt)) (dbg_frames_buffer dt) \<and>
         int (length (dbg_frames_buffer t')) \<le> dbg_max_buffer \<and>
         dbg_last_shot_frame t' =
           (if 0 \<le> dbg_last_shot_frame dt
            then max 0 (dbg_last_shot_frame dt - int (excess dbg_max_buffer (dbg_frames_buffer dt)))
            else dbg_last_shot_frame dt)"
    by (rule dbg_trim_buffer_fields)
qed

theorem eviction_rebases_cooldown_witness:
  "(\<exists>s rs s1 ft. run read_angle (init ''right'') late_shot = Inr (s, rs) \<and>
      length rs = 191 \<and> map_option (release_idx \<circ> fst) (rs ! 185) = Some 179 \<and>
      since_last rs = Some 5 \<and> length (frames_buffer s) = 180 \<and> last_shot_frame s = 174 \<and>
      ingest read_angle s 191 (pose 170) full_vis = Inr (s1, ft) \<and>
      \<not> COOLDOWN_FRAMES \<le> int (length (frames_buffer s1)) - 1 - last_shot_frame s1) \<and>
   lockstep over_state \<and>
   (\<exists>t'. trim_buffer over_state = Inr t' \<and> length (frames_buffer t') = 180 \<and>
      last_shot_frame t' = 0) \<and>
   (\<exists>s rs s1 ft. dbg_run read_angle (dbg_init ''right'') (dbg_steady 0 12) = Inr (s, rs) \<and>
      since_last rs = Some 1 \<and>
      dbg_ingest read_angle s 12 (pose 170) full_vis 13 0 = Inr (s1, ft) \<and>
      \<not> COOLDOWN_FRAMES \<le> int (length (dbg_frames_buffer s1)) - 1 - dbg_last_shot_frame s1) \<and>
   dbg_lockstep dbg_over_state \<and>
   (\<exists>t'. dbg_trim_buffer dbg_over_state = Inr t' \<and> length (dbg_frames_buffer t') = 200 \<and>
      dbg_last_shot_frame t' = 148)"
proof -
  note t = eviction_rebases_cooldown[where ang = read_angle and sd = "''right''"
      and xs = late_shot and t = over_state and dang = read_angle and dsd = "''right''"
      and dxs = "dbg_steady 0 12" and dt = dbg_over_state]
  note o = over_state_eval
  from eval_runE[OF late_shot_eval] obtain s rs where
    r: "run read_angle (init ''right'') late_shot = Inr (s, rs)"
    and e: "length (frames_buffer s) = 180" "last_shot_frame s = 174" "since_last rs = Some 5"
      "length rs = 191" "map_option (release_idx \<circ> fst) (rs ! 185) = Some 179"
    by blast
  from t[THEN conjunct1] r e(3) obtain s1 ft where
    i: "ingest read_angle s 191 (pose 170) full_vis = Inr (s1, ft)"
    and c: "(COOLDOWN_FRAMES \<le> int (length (frames_buffer s1)) - 1 - last_shot_frame s1)
              = (COOLDOWN_FRAMES \<le> int 5 + 1)"
    by fastforce
  from c have nc: "\<not> COOLDOWN_FRAMES \<le> int (length (frames_buffer s1)) - 1 - last_shot_frame s1"
    by (simp add: COOLDOWN_FRAMES_def)
  have A: "\<exists>s rs s1 ft. run read_angle (init ''right'') late_shot = Inr (s, rs) \<and>
      length rs = 191 \<and> map_option (release_idx \<circ> fst) (rs ! 185) = Some 179 \<and>
      since_last rs = Some 5 \<and> length (frames_buffer s) = 180 \<and> last_shot_frame s = 174 \<and>
      ingest read_angle s 191 (pose 170) full_vis = Inr (s1, ft) \<and>
      \<not> COOLDOWN_FRAMES \<le> int (length (frames_buffer s1)) - 1 - last_shot_frame s1"
    using r e i nc by blast
  from t[THEN conjunct2, THEN conjunct1] o obtain t' where
    tr: "trim_buffer over_state = Inr t'"
    and tf: "frames_buffer t' = drop 3 (frames_buffer over_state)"
      "last_shot_frame t' = (if 0 \<le> (2::int) then max 0 (2 - int 3) else 2)"
    by auto
  have B: "\<exists>t'. trim_buffer over_state = Inr t' \<and> length (frames_buffer t') = 180 \<and>
      last_shot_frame t' = 0"
    using tr tf by (intro exI[of _ t']) (simp add: over_state_def)
  from eval_runE[OF dbg_short_run_eval] obtain ds drs where
    dr: "dbg_run read_angle (dbg_init ''right'') (dbg_steady 0 12) = Inr (ds, drs)"
    and de: "since_last drs = Some 1"
    by blast
  from t[THEN conjunct2, THEN conjunct2, THEN conjunct1] dr de obtain d1 dft where
    di: "dbg_ingest read_angle ds 12 (pose 170) full_vis 13 0 = Inr (d1, dft)"
    and dc: "(COOLDOWN_FRAMES \<le> int (length (dbg_frames_buffer d1)) - 1 - dbg_last_shot_frame d1)
              = (COOLDOWN_FRAMES \<le> int 1 + 1)"
    by fastforce
  from dc have dnc: "\<not> COOLDOWN_FRAMES \<le> int (length (dbg_frames_buffer d1)) - 1 - dbg_last_shot_frame d1"
    by (simp add: COOLDOWN_FRAMES_def)
  have C: "\<exists>s rs s1 ft. dbg_run read_angle (dbg_init ''right'') (dbg_steady 0 12) = Inr (s, rs) \<and>
      since_last rs = Some 1 \<and>
      dbg_ingest read_angle s 12 (pose 170) full_vis 13 0 = Inr (s1, ft) \<and>
      \<not> COOLDOWN_FRAMES \<le> int (length (dbg_frames_buffer s1)) - 1 - dbg_last_shot_frame s1"
    using dr de di dnc by blast
  from t[THEN conjunct2, THEN conjunct2, THEN conjunct2] o obtain dt' where
    dtr: "dbg_trim_buffer dbg_over_state = Inr dt'"
    and dtf: "dbg_frames_buffer dt' = drop 2 (dbg_frames_buffer dbg_over_state)"
      "dbg_last_shot_frame dt' = (if 0 \<le> (150::int) then max 0 (150 - int 2) else 150)"
    by auto
  have D: "\<exists>t'. dbg_trim_buffer dbg_over_state = Inr t' \<and> length (dbg_frames_buffer t') = 200 \<and>
      dbg_last_shot_frame t' = 148"
    using dtr dtf by (intro exI[of _ dt']) (simp add: dbg_over_state_def)
  show ?thesis using A B C D o by blast
qed

section \<open>Determinism\<close>

lemma index_all_same_length:
  "length xs = length ys \<Longrightarrow>
   (\<exists>e. index_all xs js = Inl e \<and> index_all ys js = Inl e) \<or>
   (\<exists>zs zs'. index_all xs js = Inr zs \<and> index_all ys js = Inr zs')"
proof (induction js)
  case Nil
  then show ?case by simp
next
  case (Cons j js)
  show ?case
  proof (cases "0 \<le> j \<and> j < int (length xs) \<or> - int (length xs) \<le> j \<and> j < 0")
    case True
    then obtain x y where "py_index xs j = Inr x" "py_index ys j = Inr y"
      using Cons.prems by (auto simp: py_index_def Let_def)
    with Cons.IH[OF Cons.prems] show ?thesis by auto
  next
    case False
    then have "py_index xs j = Inl IndexError" "py_index ys j = Inl IndexError"
      using Cons.prems by (auto simp: py_index_def Let_def)
    then show ?thesis by simp
  qed
qed

lemma create_shot_same:
  assumes sd: "same_detection s t"
  shows "map_sum id event_view (create_shot_from_release ang now s R) =
         map_sum id event_view (create_shot_from_release ang now' t R)"
proof (cases "load_loop (elbow_angles s) (py_range (max 0 (R - 60)) R) (R, Infinity)")
  case (Inl e)
  then show ?thesis
    using sd by (simp add: create_shot_from_release_def same_detection_def bindE_def Let_def event_view_def)
next
  case (Inr p)
  obtain L m where p: "p = (L, m)" by (cases p)
  note l = Inr[unfolded p]
  from sd have l': "load_loop (elbow_angles t) (py_range (max 0 (R - 60)) R) (R, Infinity) = Inr (L, m)"
    using l by (simp add: same_detection_def)
  from sd have eq: "elbow_angles t = elbow_angles s" "landmarks_buffer t = landmarks_buffer s"
    "side t = side s" "length (frames_buffer t) = length (frames_buffer s)"
    by (simp_all add: same_detection_def)
  let ?k = "sample_key_frames (int (length (frames_buffer s))) L R"
  from index_all_same_length[OF eq(4)[symmetric], of "key_list ?k"]
  show ?thesis
  proof
    assume "\<exists>e. index_all (frames_buffer s) (key_list ?k) = Inl e \<and>
              index_all (frames_buffer t) (key_list ?k) = Inl e"
    then obtain e where "index_all (frames_buffer s) (key_list ?k) = Inl e"
      "index_all (frames_buffer t) (key_list ?k) = Inl e" by blast
    then show ?thesis
      by (simp add: create_shot_from_release_def l l' eq bindE_def Let_def event_view_def)
  next
    assume "\<exists>zs zs'. index_all (frames_buffer s) (key_list ?k) = Inr zs \<and>
              index_all (frames_buffer t) (key_list ?k) = Inr zs'"
    then obtain zs zs' where "index_all (frames_buffer s) (key_list ?k) = Inr zs"
      "index_all (frames_buffer t) (key_list ?k) = Inr zs'" by blast
    then show ?thesis
      by (simp add: create_shot_from_release_def l l' eq bindE_def Let_def event_view_def
          split: sum.splits)
  qed
qed

lemma same_detection_lockstep:
  "same_detection s t \<Longrightarrow> lockstep s \<Longrightarrow> lockstep t"
  by (simp add: same_detection_def lockstep_def)

lemma ingested_same:
  "same_detection s t \<Longrightarrow>
   same_detection (ingested ang s f lm vis) (ingested ang t g lm vis)"
  by (simp add: same_detection_def ingested_def Let_def excess_def)

lemma detect_same:
  assumes sd: "same_detection s t"
    and a: "detect ang now s ft = Inr (s', r)"
    and b: "detect ang now' t ft = Inr (t', r')"
  shows "same_detection s' t' \<and> event_view r = event_view r'"
proof -
  from sd have len: "length (frames_buffer t) = length (frames_buffer s)"
    and st: "stability_count t = stability_count s"
    and la: "last_shot_frame t = last_shot_frame s"
    by (simp_all add: same_detection_def)
  let ?R = "int (length (frames_buffer s)) - 1"
  note c = create_shot_same[OF sd, of ang now ?R now']
  show ?thesis
  proof (cases "stability_count s < STABILITY_REQUIRED \<or> ?R - last_shot_frame s < COOLDOWN_FRAMES
      \<or> \<not> (truthy (f_elbow_angle ft) \<and> the (f_elbow_angle ft) > RELEASE_ANGLE
              \<and> f_wrist_above_shoulder ft)")
    case True
    then have "detect ang now s ft = Inr (s, None)" "detect ang now' t ft = Inr (t, None)"
      by (auto simp: detect_def Let_def len st la)
    with a b sd show ?thesis by (simp add: event_view_def)
  next
    case False
    then have da: "detect ang now s ft =
        bindE (create_shot_from_release ang now s ?R) (\<lambda>shot.
             case shot of
               Some ev \<Rightarrow> Inr (s\<lparr> last_shot_frame := ?R \<rparr>, Some ev)
             | None \<Rightarrow> Inr (s, None))"
      and db: "detect ang now' t ft =
        bindE (create_shot_from_release ang now' t ?R) (\<lambda>shot.
             case shot of
               Some ev \<Rightarrow> Inr (t\<lparr> last_shot_frame := ?R \<rparr>, Some ev)
             | None \<Rightarrow> Inr (t, None))"
      by (auto simp: detect_def Let_def len st la)
    from a da obtain x where x: "create_shot_from_release ang now s ?R = Inr x"
      by (auto simp: bindE_Inr_iff)
    from b db obtain y where y: "create_shot_from_release ang now' t ?R = Inr y"
      by (auto simp: bindE_Inr_iff)
    from c x y have v: "event_view x = event_view y" by simp
    show ?thesis
    proof (cases x)
      case None
      with v have "y = None" by (simp add: event_view_def)
      with None a b da db x y sd show ?thesis by (simp add: bindE_Inr event_view_def)
    next
      case (Some ev)
      with v obtain ev' where y': "y = Some ev'" by (cases y) (auto simp: event_view_def)
      from Some a da x have "s' = s\<lparr> last_shot_frame := ?R \<rparr>" "r = Some ev"
        by (simp_all add: bindE_Inr)
      moreover from y' b db y have "t' = t\<lparr> last_shot_frame := ?R \<rparr>" "r' = Some ev'"
        by (simp_all add: bindE_Inr)
      ultimately show ?thesis using sd v Some y' by (simp add: same_detection_def)
    qed
  qed
qed

lemma update_same:
  assumes sd: "same_detection s t" and ls: "lockstep s"
    and a: "update ang now s f lm vis = Inr (s', r)"
    and b: "update ang now' t g lm vis = Inr (t', r')"
  shows "same_detection s' t' \<and> event_view r = event_view r'"
proof -
  note lt = same_detection_lockstep[OF sd ls]
  from sd have eq: "side t = side s" "stability_count t = stability_count s"
    by (simp_all add: same_detection_def)
  let ?ft = "extract_features ang (side s) (stability_count s) lm vis"
  from a have da: "detect ang now (ingested ang s f lm vis) ?ft = Inr (s', r)"
    by (simp add: update_def ingest_eq[OF ls] bindE_Inr)
  from b have db: "detect ang now' (ingested ang t g lm vis) ?ft = Inr (t', r')"
    by (simp add: update_def ingest_eq[OF lt] bindE_Inr eq)
  from detect_same[OF ingested_same[OF sd] da db] show ?thesis .
qed

lemma run_same:
  assumes "same_detection s t" and "lockstep s"
    and "map fi_landmarks xs = map fi_landmarks ys"
    and "map fi_visibility xs = map fi_visibility ys"
  shows "\<exists>s' rs t' rs'. run ang s xs = Inr (s', rs) \<and> run ang t ys = Inr (t', rs') \<and>
           map event_view rs = map event_view rs'"
  using assms
proof (induction xs arbitrary: s t ys)
  case Nil
  then show ?case by simp
next
  case (Cons x xs)
  from Cons.prems(3) obtain y ys' where ys: "ys = y # ys'" by (cases ys) auto
  with Cons.prems have lm: "fi_landmarks y = fi_landmarks x" "fi_visibility y = fi_visibility x"
    and rest: "map fi_landmarks xs = map fi_landmarks ys'"
      "map fi_visibility xs = map fi_visibility ys'"
    by simp_all
  note lt = same_detection_lockstep[OF Cons.prems(1,2)]
  from update_total[OF Cons.prems(2)] obtain s1 r where
    a: "update ang (fi_now x) s (fi_frame x) (fi_landmarks x) (fi_visibility x) = Inr (s1, r)"
    by blast
  from update_total[OF lt] obtain t1 r' where
    b: "update ang (fi_now y) t (fi_frame y) (fi_landmarks x) (fi_visibility x) = Inr (t1, r')"
    by blast
  from update_same[OF Cons.prems(1,2) a b] have
    sd: "same_detection s1 t1" and v: "event_view r = event_view r'" by blast+
  from Cons.IH[OF sd update_lockstep[OF Cons.prems(2) a] rest] obtain s' rs t' rs' where
    "run ang s1 xs = Inr (s', rs)" "run ang t1 ys' = Inr (t', rs')"
    "map event_view rs = map event_view rs'"
    by blast
  with a b v show ?case by (simp add: ys lm)
qed

lemma same_detection_init: "same_detection (init sd) (init sd)"
  by (simp add: same_detection_def init_def)

lemma steady_runs_eval:
  "(case run read_angle (init ''right'') (steady 0 11) of
      Inr (s, rs) \<Rightarrow>
        map_option (\<lambda>(k, e). (release_idx k, timestamp e, map snd (frames e))) (rs ! 10)
          = Some (10, 0, [0, 0, 2, 4, 6, 8, 10, 10])
    | _ \<Rightarrow> False) \<and>
   (case run read_angle (init ''right'') (steady_b 0 11) of
      Inr (s, rs) \<Rightarrow>
        map_option (\<lambda>(k, e). (release_idx k, timestamp e, map snd (frames e))) (rs ! 10)
          = Some (10, 5, [1000, 1000, 1002, 1004, 1006, 1008, 1010, 1010])
    | _ \<Rightarrow> False)"
  by code_simp

text \<open>
  Claim C9 (\<open>LiveShotDetector\<close>). Two fresh detectors with the same shooting side that
  are fed the same sequence of joint-position and joint-confidence maps emit the same
  events: at every frame both return \<open>None\<close>, or both return an event with the same
  eight key-frame indices, the same load angle and the same release angle. This holds
  whatever the frame images are and whatever \<open>time.time()\<close> returns in either run; the
  clock only reaches the \<open>timestamp\<close> field of an event, never the detection.
\<close>

theorem detection_is_deterministic:
  "map fi_landmarks xs = map fi_landmarks ys \<and> map fi_visibility xs = map fi_visibility ys \<longrightarrow>
     (\<exists>s rs t rs'. run ang (init sd) xs = Inr (s, rs) \<and> run ang (init sd) ys = Inr (t, rs') \<and>
        map event_view rs = map event_view rs')"
proof
  assume a: "map fi_landmarks xs = map fi_landmarks ys \<and> map fi_visibility xs = map fi_visibility ys"
  from run_same[OF same_detection_init[of sd] lockstep_init[of sd], where xs = xs and ys = ys and ang = ang] a
  show "\<exists>s rs t rs'. run ang (init sd) xs = Inr (s, rs) \<and> run ang (init sd) ys = Inr (t, rs') \<and>
        map event_view rs = map event_view rs'"
    by blast
qed

theorem detection_is_deterministic_witness:
  "map fi_landmarks (steady 0 11) = map fi_landmarks (steady_b 0 11) \<and>
   map fi_visibility (steady 0 11) = map fi_visibility (steady_b 0 11) \<and>
   (\<exists>s rs t rs'. run read_angle (init ''right'') (steady 0 11) = Inr (s, rs) \<and>
      run read_angle (init ''right'') (steady_b 0 11) = Inr (t, rs') \<and>
      map event_view rs = map event_view rs' \<and>
      map_option (\<lambda>(k, e). (release_idx k, timestamp e, map snd (frames e))) (rs ! 10)
          = Some (10, 0, [0, 0, 2, 4, 6, 8, 10, 10]) \<and>
      map_option (\<lambda>(k, e). (release_idx k, timestamp e, map snd (frames e))) (rs' ! 10)
          = Some (10, 5, [1000, 1000, 1002, 1004, 1006, 1008, 1010, 1010]))"
proof -
  have h: "map fi_landmarks (steady 0 11) = map fi_landmarks (steady_b 0 11)"
    "map fi_visibility (steady 0 11) = map fi_visibility (steady_b 0 11)"
    by (simp_all add: steady_def steady_b_def)
  from detection_is_deterministic[where xs = "steady 0 11" and ys = "steady_b 0 11"
      and ang = read_angle and sd = "''right''"] h
  obtain s rs t rs' where
    r: "run read_angle (init ''right'') (steady 0 11) = Inr (s, rs)"
      "run read_angle (init ''right'') (steady_b 0 11) = Inr (t, rs')"
      "map event_view rs = map event_view rs'"
    by blast
  from steady_runs_eval r(1,2) have
    "map_option (\<lambda>(k, e). (release_idx k, timestamp e, map snd (frames e))) (rs ! 10)
          = Some (10, 0, [0, 0, 2, 4, 6, 8, 10, 10])"
    "map_option (\<lambda>(k, e). (release_idx k, timestamp e, map snd (frames e))) (rs' ! 10)
          = Some (10, 5, [1000, 1000, 1002, 1004, 1006, 1008, 1010, 1010])"
    by simp_all
  with h r show ?thesis by blast
qed

section \<open>The scenario of the specification\<close>

lemma run_append:
  "run ang s (xs @ ys) =
     (case run ang s xs of
        Inl e \<Rightarrow> Inl e
      | Inr (s', rs) \<Rightarrow>
          (case run ang s' ys of Inl e \<Rightarrow> Inl e | Inr (s'', rs') \<Rightarrow> Inr (s'', rs @ rs')))"
  by (induction xs arbitrary: s) (auto split: sum.splits prod.splits)

lemma update_in_cooldown:
  assumes ls: "lockstep s"
    and room: "int (length (frames_buffer s)) < max_buffer"
    and cd: "int (length (frames_buffer s)) - last_shot_frame s < COOLDOWN_FRAMES"
  shows "\<exists>s'. update ang now s f lm vis = Inr (s', None) \<and> lockstep s' \<and>
     length (frames_buffer s') = Suc (length (frames_buffer s)) \<and>
     last_shot_frame s' = last_shot_frame s"
proof -
  let ?s1 = "ingested ang s f lm vis"
  have k: "excess max_buffer (frames_buffer s @ [f]) = 0"
    using room by (simp add: excess_def)
  have len: "int (length (frames_buffer ?s1)) = int (length (frames_buffer s)) + 1"
    unfolding ingested_fields using room by simp
  have la: "last_shot_frame ?s1 = last_shot_frame s"
    unfolding ingested_fields k by (simp add: rebase_0)
  have "detect ang now ?s1 (extract_features ang (side s) (stability_count s) lm vis) = Inr (?s1, None)"
    using cd by (simp add: detect_def Let_def len la)
  then have "update ang now s f lm vis = Inr (?s1, None)"
    by (simp add: update_def ingest_eq[OF ls] bindE_Inr)
  moreover have "length (frames_buffer ?s1) = Suc (length (frames_buffer s))"
    using len by simp
  ultimately show ?thesis using ingested_lockstep[OF ls] la by blast
qed

lemma run_in_cooldown:
  assumes "lockstep s"
    and "int (length (frames_buffer s)) + int (length ys) \<le> max_buffer"
    and "int (length (frames_buffer s)) + int (length ys) - 1 - last_shot_frame s < COOLDOWN_FRAMES"
  shows "\<exists>s'. run ang s ys = Inr (s', replicate (length ys) None)"
  using assms
proof (induction ys arbitrary: s)
  case Nil
  then show ?case by simp
next
  case (Cons y ys)
  have room: "int (length (frames_buffer s)) < max_buffer" using Cons.prems(2) by simp
  have cd: "int (length (frames_buffer s)) - last_shot_frame s < COOLDOWN_FRAMES"
    using Cons.prems(3) by simp
  from update_in_cooldown[OF Cons.prems(1) room cd] obtain s1 where
    u: "update ang (fi_now y) s (fi_frame y) (fi_landmarks y) (fi_visibility y) = Inr (s1, None)"
    and s1: "lockstep s1" "length (frames_buffer s1) = Suc (length (frames_buffer s))"
      "last_shot_frame s1 = last_shot_frame s"
    by blast
  have "int (length (frames_buffer s1)) + int (length ys) \<le> max_buffer"
    using Cons.prems(2) s1 by simp
  moreover have "int (length (frames_buffer s1)) + int (length ys) - 1 - last_shot_frame s1
      < COOLDOWN_FRAMES"
    using Cons.prems(3) s1 by simp
  ultimately obtain s' where "run ang s1 ys = Inr (s', replicate (length ys) None)"
    using Cons.IH[OF s1(1)] by blast
  with u show ?case by simp
qed

lemma steady_prefix_eval:
  "(case run read_angle (init ''right'') (steady 0 60) of
      Inr (s, rs) \<Rightarrow>
        map shot_view rs = replicate 10 None @ [Some (0, 10, Angle 170)] @ replicate 44 None @
          [Some (0, 55, Angle 170)] @ replicate 4 None \<and>
        length (frames_buffer s) = 60 \<and> last_shot_frame s = 55
    | _ \<Rightarrow> False)"
  by code_simp

lemma steady_prefix:
  "\<exists>s rs. run read_angle (init ''right'') (steady 0 60) = Inr (s, rs) \<and>
     map shot_view rs = replicate 10 None @ [Some (0, 10, Angle 170)] @ replicate 44 None @
          [Some (0, 55, Angle 170)] @ replicate 4 None \<and>
     length (frames_buffer s) = 60 \<and> last_shot_frame s = 55 \<and> lockstep s"
proof -
  from eval_runE[OF steady_prefix_eval] obtain s rs where
    r: "run read_angle (init ''right'') (steady 0 60) = Inr (s, rs)"
    and e: "map shot_view rs = replicate 10 None @ [Some (0, 10, Angle 170)] @ replicate 44 None @
          [Some (0, 55, Angle 170)] @ replicate 4 None"
      "length (frames_buffer s) = 60" "last_shot_frame s = 55"
    by blast
  from run_inv[OF init_inv, of read_angle "''right''" "steady 0 60"] r
  have "lockstep s" by (auto simp: cooldown_inv_def)
  with r e show ?thesis by blast
qed

text \<open>
  Claim C7, as the code has it. Sixty frames of elbow angle 170 with the wrist above
  the shoulder at full confidence already make \<open>update\<close> emit two events: at frame
  index 10, the first at which the stability gate is open and the earliest 170 of the
  window lies 10 frames back (load index 0, duration 10), and at index 55, the first
  index past the cooldown of 45 (load index 0, duration 55). Whatever the next 35
  frames hold, descent and rise included, no further event is emitted up to index
  94, which is only 39 frames after the release accepted at index 55.
\<close>

theorem steady_hold_fires_twice:
  "length rest = 35 \<longrightarrow>
     (\<exists>s rs. run read_angle (init ''right'') (steady 0 60 @ rest) = Inr (s, rs) \<and>
        map shot_view rs = replicate 10 None @ [Some (0, 10, Angle 170)] @ replicate 44 None @
          [Some (0, 55, Angle 170)] @ replicate 39 None)"
proof
  assume len: "length rest = 35"
  from steady_prefix obtain s rs where
    r: "run read_angle (init ''right'') (steady 0 60) = Inr (s, rs)"
    and e: "map shot_view rs = replicate 10 None @ [Some (0, 10, Angle 170)] @ replicate 44 None @
          [Some (0, 55, Angle 170)] @ replicate 4 None"
    and s: "length (frames_buffer s) = 60" "last_shot_frame s = 55" "lockstep s"
    by blast
  have a: "int (length (frames_buffer s)) + int (length rest) \<le> max_buffer"
    by (simp add: s len max_buffer_def)
  have b: "int (length (frames_buffer s)) + int (length rest) - 1 - last_shot_frame s
      < COOLDOWN_FRAMES"
    by (simp add: s len COOLDOWN_FRAMES_def)
  from run_in_cooldown[OF s(3) a b, of read_angle] obtain s' where
    q: "run read_angle s rest = Inr (s', replicate (length rest) None)" by blast
  have v: "map shot_view (replicate 35 None) = replicate 35 None"
    by (simp add: shot_view_def)
  have j: "replicate 4 None @ replicate 35 None = (replicate 39 None :: (int \<times> int \<times> ext_angle) option list)"
    by (simp add: replicate_add[symmetric])
  have "run read_angle (init ''right'') (steady 0 60 @ rest) = Inr (s', rs @ replicate 35 None)"
    by (simp add: run_append r q[unfolded len])
  moreover have "map shot_view (rs @ replicate 35 None) =
      replicate 10 None @ [Some (0, 10, Angle 170)] @ replicate 44 None @
          [Some (0, 55, Angle 170)] @ replicate 39 None"
    unfolding map_append e v using j by simp
  ultimately show "\<exists>s rs. run read_angle (init ''right'') (steady 0 60 @ rest) = Inr (s, rs) \<and>
        map shot_view rs = replicate 10 None @ [Some (0, 10, Angle 170)] @ replicate 44 None @
          [Some (0, 55, Angle 170)] @ replicate 39 None"
    by blast
qed

theorem steady_hold_fires_twice_witness:
  "length (descent @ rise) = 35 \<and>
   (\<exists>s rs. run read_angle (init ''right'') spec_scenario = Inr (s, rs) \<and>
      map shot_view rs = replicate 10 None @ [Some (0, 10, Angle 170)] @ replicate 44 None @
          [Some (0, 55, Angle 170)] @ replicate 39 None)"
proof -
  have l: "length (descent @ rise) = 35" by (simp add: descent_def rise_def)
  from steady_hold_fires_twice[of "descent @ rise"] l
  show ?thesis unfolding spec_scenario_def by blast
qed

lemma spec_scenario_eval:
  "map_sum id (map shot_view \<circ> snd) (run read_angle (init ''right'') spec_scenario) =
     Inr (replicate 10 None @ [Some (0, 10, Angle 170)] @ replicate 44 None @
          [Some (0, 55, Angle 170)] @ replicate 39 None) \<and>
   length spec_scenario = 95 \<and>
   map (\<lambda>x. map_option fst (fi_landmarks x ''right_elbow'')) spec_scenario ! 59 = Some 170 \<and>
   map (\<lambda>x. map_option fst (fi_landmarks x ''right_elbow'')) spec_scenario ! 79 = Some 80 \<and>
   map (\<lambda>x. map_option fst (fi_landmarks x ''right_elbow'')) spec_scenario ! 94 = Some 170"
  by code_simp

text \<open>
  The scenario as the specification states it (angle 170 at frame 59, 80 at frame 79,
  170 again at frame 94) does not give one event at release index 94 with its load
  near index 75: the events are those at indices 10 and 55, and frame 94 gives none.
\<close>

theorem spec_scenario_counterexample:
  "map_sum id (map shot_view \<circ> snd) (run read_angle (init ''right'') spec_scenario) =
     Inr (replicate 10 None @ [Some (0, 10, Angle 170)] @ replicate 44 None @
          [Some (0, 55, Angle 170)] @ replicate 39 None) \<and>
   map_sum id (map shot_view \<circ> snd) (run read_angle (init ''right'') spec_scenario) \<noteq>
     Inr (replicate 94 None @ [Some (75, 94, Angle 80)]) \<and>
   length spec_scenario = 95 \<and>
   map (\<lambda>x. map_option fst (fi_landmarks x ''right_elbow'')) spec_scenario ! 59 = Some 170 \<and>
   map (\<lambda>x. map_option fst (fi_landmarks x ''right_elbow'')) spec_scenario ! 79 = Some 80 \<and>
   map (\<lambda>x. map_option fst (fi_landmarks x ''right_elbow'')) spec_scenario ! 94 = Some 170"
proof -
  note e = spec_scenario_eval
  have "(replicate 10 None @ [Some (0, 10, Angle 170)] @ replicate 44 None @
          [Some (0, 55, Angle 170)] @ replicate 39 None) ! 10
        \<noteq> (replicate 94 None @ [Some (75::int, 94::int, Angle 80)]) ! 10"
    by (simp add: nth_append)
  then have "(replicate 10 None @ [Some (0, 10, Angle 170)] @ replicate 44 None @
          [Some (0, 55, Angle 170)] @ replicate 39 None)
        \<noteq> replicate 94 None @ [Some (75::int, 94::int, Angle 80)]"
    by metis
  with e show ?thesis by simp
qed

end
